theory Spec2Isabelle
  imports Complex_Main "HOL-Library.Product_Lexorder" "HOL-Library.List_Lexorder" "HOL-Library.Sublist"
    "HOL-Library.AList"
begin

section \<open>Shared data model\<close>

text \<open>
  Python strings are sequences of Unicode code points; a code point is a natural number.
  ASCII literals of the source are written through \<open>u\<close>.
\<close>

type_synonym ustr = "nat list"

definition u :: "string \<Rightarrow> ustr" where
  "u s = map of_char s"

text \<open>
  A cell of a spreadsheet or of a data frame column of dtype object. \<open>CNaN\<close> is the float
  NaN, \<open>CTime\<close> a datetime value (seconds), \<open>CNone\<close> Python's None.
  Finite floats are modelled by real numbers.
\<close>

datatype cell = CNone | CBool bool | CInt int | CFloat real | CNaN | CStr ustr | CTime int

text \<open>Timestamps are seconds on a linear time axis; a float column holds \<open>None\<close> for NaN.\<close>

type_synonym timestamp = int

section \<open>Cleaning and deduplication (prepare_precip_model.py, prepare_precip_observed.py)\<close>

text \<open>
  \<open>DataFrame.duplicated(subset=[time, station_id], keep="last")\<close>: a row is marked when a
  later row carries the same key.
\<close>

fun duplicated_last :: "'k list \<Rightarrow> bool list" where
  "duplicated_last [] = []"
| "duplicated_last (k # ks) = (k \<in> set ks) # duplicated_last ks"

text \<open>\<open>clean.loc[~dup_mask]\<close>: the rows whose mask entry is False, in their order.\<close>

definition loc_not :: "bool list \<Rightarrow> 'r list \<Rightarrow> 'r list" where
  "loc_not msk rs = map fst (filter (\<lambda>(r, d). \<not> d) (zip rs msk))"

text \<open>\<open>int(mask.sum())\<close>\<close>

definition mask_sum :: "bool list \<Rightarrow> nat" where
  "mask_sum msk = length (filter (\<lambda>d. d) msk)"

text \<open>\<open>astype(int)\<close> on a finite float: truncation towards zero.\<close>

definition trunc_int :: "real \<Rightarrow> int" where
  "trunc_int r = (if 0 \<le> r then \<lfloor>r\<rfloor> else \<lceil>r\<rceil>)"



text \<open>A row after the conversions of \<open>validate_and_clean_input\<close>.\<close>

record 'a clean_row =
  cr_time :: timestamp
  cr_station_id :: int
  cr_rr :: "real option"
  cr_rest :: 'a


text \<open>
  The warning messages of the four scripts, one constructor per kind of message, with the
  values the message is formatted from.
\<close>

datatype warning =
    InvalidTimestamps nat
  | InvalidStationId nat
  | NonNumericValues nat
  | NegativeValues nat
  | DuplicateRowsRemoved nat
  | FuzzyMappingUsed "(ustr \<times> int \<times> ustr \<times> ustr) list"
  | UnmappedColumns "ustr list"
  | StationsAbsentInInput "int list"
  | StationsAddedToDataSheet "int list"
  | StationsNotInStationsSheet "int list"
  | TimeGapsDetected nat
  | NoCodeRow
  | RateColumnsIgnored "ustr list"
  | OtherColumnsIgnored "ustr list"





text \<open>Lines 125-131: the duplicate mask, its count, and the rows kept.\<close>

definition drop_duplicates_keep_last :: "('r \<Rightarrow> 'k) \<Rightarrow> 'r list \<Rightarrow> 'r list \<times> nat" where
  "drop_duplicates_keep_last key rs =
    (let dup_mask = duplicated_last (map key rs);
         duplicate_rows_removed = mask_sum dup_mask
     in (if duplicate_rows_removed > 0 then loc_not dup_mask rs else rs, duplicate_rows_removed))"




definition comma_to_dot :: "ustr \<Rightarrow> ustr" where
  "comma_to_dot s = map (\<lambda>c. if c = 44 then 46 else c) s"




text \<open>
  Concrete converters for evaluating examples: a datetime cell is its own timestamp, a
  number is its own value, a numeric string of decimal digits is read as that number.
\<close>

definition ex_to_datetime :: "cell \<Rightarrow> timestamp option" where
  "ex_to_datetime c = (case c of CTime t \<Rightarrow> Some t | _ \<Rightarrow> None)"

definition ex_digits :: "ustr \<Rightarrow> nat option" where
  "ex_digits s = (if s \<noteq> [] \<and> list_all (\<lambda>c. 48 \<le> c \<and> c \<le> 57) s
                  then Some (foldl (\<lambda>a c. 10 * a + (c - 48)) 0 s) else None)"

definition ex_to_numeric :: "cell \<Rightarrow> real option" where
  "ex_to_numeric c = (case c of CInt i \<Rightarrow> Some (of_int i) | CFloat r \<Rightarrow> Some r
                      | CStr s \<Rightarrow> map_option of_nat (ex_digits s) | _ \<Rightarrow> None)"

definition ex_astype_str :: "cell \<Rightarrow> ustr" where
  "ex_astype_str c = (case c of CStr s \<Rightarrow> s | _ \<Rightarrow> u ''nan'')"




section \<open>Matrix builder (build_matrix, dataframe_to_matrix, build_station_order)\<close>

text \<open>
  A long-format frame handed to the matrix builder: one row per (time, station_id, value);
  the value is \<open>None\<close> for NaN.
\<close>

type_synonym long_frame = "(timestamp \<times> int \<times> real option) list"

text \<open>
  The time by station matrix: \<open>mx_index\<close> are the row labels, \<open>mx_columns\<close> the column
  labels, \<open>mx_rows\<close> holds one list of cells per row label.
\<close>

record matrix =
  mx_index :: "timestamp list"
  mx_columns :: "int list"
  mx_rows :: "real option list list"

text \<open>
  \<open>df.pivot_table(index="time", columns="station_id", values=..., aggfunc="last")\<close>:
  pandas groups by (time, station_id), takes the last non-null value of each group, drops
  the groups whose aggregate is null, and unstacks with both axes sorted.
\<close>

definition group_last :: "long_frame \<Rightarrow> timestamp \<Rightarrow> int \<Rightarrow> real option" where
  "group_last df t c =
     (case filter (\<lambda>v. v \<noteq> None) (map (\<lambda>(t', c', v). v) (filter (\<lambda>(t', c', v). t' = t \<and> c' = c) df)) of
        [] \<Rightarrow> None
      | v # vs \<Rightarrow> last (v # vs))"

definition pivot_index :: "long_frame \<Rightarrow> timestamp list" where
  "pivot_index df = sort (remdups (map (\<lambda>(t, c, v). t) (filter (\<lambda>(t, c, v). v \<noteq> None) df)))"

definition pivot_columns :: "long_frame \<Rightarrow> int list" where
  "pivot_columns df = sort (remdups (map (\<lambda>(t, c, v). c) (filter (\<lambda>(t, c, v). v \<noteq> None) df)))"

text \<open>\<open>pivot.reindex(columns=target_codes)\<close>: a requested column absent from the pivot is all null.\<close>

definition reindex_columns :: "long_frame \<Rightarrow> int list \<Rightarrow> real option list list" where
  "reindex_columns df target_codes =
     map (\<lambda>t. map (\<lambda>c. if c \<in> set (pivot_columns df) then group_last df t c else None) target_codes)
         (pivot_index df)"

definition isna_sum :: "real option list list \<Rightarrow> nat" where
  "isna_sum rows = length (filter (\<lambda>v. v = None) (concat rows))"

text \<open>\<open>matrix.fillna(fill)\<close>; a NaN fill value leaves the cell null.\<close>

definition fillna :: "real option \<Rightarrow> real option list list \<Rightarrow> real option list list" where
  "fillna fill rows = map (map (\<lambda>v. case v of None \<Rightarrow> fill | Some x \<Rightarrow> Some x)) rows"

definition dropna :: "real option list \<Rightarrow> real list" where
  "dropna vs = map the (filter (\<lambda>v. v \<noteq> None) vs)"

text \<open>\<open>Series.quantile(q)\<close>: linear interpolation between the order statistics around \<open>(n-1)q\<close>.\<close>

definition quantile :: "real \<Rightarrow> real list \<Rightarrow> real" where
  "quantile q vs =
     (let s = sort vs; h = real (length s - 1) * q; lo = nat \<lfloor>h\<rfloor>; hi = nat \<lceil>h\<rceil>
      in s ! lo + (h - real lo) * (s ! hi - s ! lo))"

definition mean :: "real list \<Rightarrow> real" where
  "mean vs = sum_list vs / real (length vs)"

record summary =
  sm_min :: "real option"
  sm_max :: "real option"
  sm_mean :: "real option"
  sm_p95 :: "real option"
  sm_p99 :: "real option"

text \<open>The five statistics over a list of non-null values; each is None when the list is empty.\<close>

definition summary_of :: "real list \<Rightarrow> summary" where
  "summary_of valid =
     (if valid = [] then \<lparr>sm_min = None, sm_max = None, sm_mean = None, sm_p95 = None, sm_p99 = None\<rparr>
      else \<lparr>sm_min = Some (Min (set valid)), sm_max = Some (Max (set valid)),
            sm_mean = Some (mean valid),
            sm_p95 = Some (quantile (95 / 100) valid), sm_p99 = Some (quantile (99 / 100) valid)\<rparr>)"

record matrix_stats =
  ms_output_rows :: nat
  ms_output_station_columns :: nat
  ms_pre_fill_missing_cells :: nat
  ms_fill_missing_value :: "real option"
  ms_summary :: summary

text \<open>
  \<open>build_matrix\<close> of prepare_flow_observed.py (lines 382-403). \<open>fill_missing\<close> is None
  for the policy that leaves nulls.
\<close>

definition build_matrix_flow :: "long_frame \<Rightarrow> int list \<Rightarrow> real option \<Rightarrow> matrix \<times> matrix_stats" where
  "build_matrix_flow df target_codes fill_missing =
     (let matrix0 = reindex_columns df target_codes;
          pre_fill_missing = isna_sum matrix0;
          matrix = (if fill_missing \<noteq> None then fillna fill_missing matrix0 else matrix0);
          flat = concat matrix;
          valid = dropna flat
      in (\<lparr>mx_index = pivot_index df, mx_columns = target_codes, mx_rows = matrix\<rparr>,
          \<lparr>ms_output_rows = length matrix, ms_output_station_columns = length target_codes,
           ms_pre_fill_missing_cells = pre_fill_missing, ms_fill_missing_value = fill_missing,
           ms_summary = summary_of valid\<rparr>))"

text \<open>\<open>build_matrix\<close> of prepare_volume_observed.py (lines 280-299).\<close>

definition build_matrix_volume :: "long_frame \<Rightarrow> int list \<Rightarrow> real option \<Rightarrow> matrix \<times> matrix_stats" where
  "build_matrix_volume df target_codes fill_missing =
     (let matrix0 = reindex_columns df target_codes;
          pre_fill = isna_sum matrix0;
          matrix = (if fill_missing \<noteq> None then fillna fill_missing matrix0 else matrix0);
          valid = dropna (concat matrix)
      in (\<lparr>mx_index = pivot_index df, mx_columns = target_codes, mx_rows = matrix\<rparr>,
          \<lparr>ms_output_rows = length matrix, ms_output_station_columns = length target_codes,
           ms_pre_fill_missing_cells = pre_fill, ms_fill_missing_value = fill_missing,
           ms_summary = summary_of valid\<rparr>))"

text \<open>
  \<open>build_matrix\<close> of prepare_precip_observed.py (lines 278-298): each statistic is taken
  on \<open>flat\<close> with the nulls skipped, guarded by \<open>len(flat.dropna())\<close>.
\<close>

definition build_matrix_obs :: "long_frame \<Rightarrow> int list \<Rightarrow> real option \<Rightarrow> matrix \<times> matrix_stats" where
  "build_matrix_obs df target_codes fill_missing =
     (let matrix0 = reindex_columns df target_codes;
          pre_fill_missing = isna_sum matrix0;
          matrix = (if fill_missing \<noteq> None then fillna fill_missing matrix0 else matrix0);
          flat = concat matrix
      in (\<lparr>mx_index = pivot_index df, mx_columns = target_codes, mx_rows = matrix\<rparr>,
          \<lparr>ms_output_rows = length matrix, ms_output_station_columns = length target_codes,
           ms_pre_fill_missing_cells = pre_fill_missing, ms_fill_missing_value = fill_missing,
           ms_summary =
             \<lparr>sm_min = (if length (dropna flat) \<noteq> 0 then Some (Min (set (dropna flat))) else None),
              sm_max = (if length (dropna flat) \<noteq> 0 then Some (Max (set (dropna flat))) else None),
              sm_mean = (if length (dropna flat) \<noteq> 0 then Some (mean (dropna flat)) else None),
              sm_p95 = (if length (dropna flat) \<noteq> 0 then Some (quantile (95 / 100) (dropna flat)) else None),
              sm_p99 = (if length (dropna flat) \<noteq> 0 then Some (quantile (99 / 100) (dropna flat)) else None)\<rparr>\<rparr>))"

text \<open>
  \<open>dataframe_to_matrix\<close> of prepare_precip_model.py (lines 207-234). The fill value is a
  float (NaN is \<open>None\<close>) and is always applied. A statistic of a series without a non-null
  value is NaN, and is absent when the series has no cell; both are \<open>None\<close> here.
\<close>

record model_matrix_stats =
  mm_output_time_count :: nat
  mm_output_station_count :: nat
  mm_pre_fill_missing_cells :: nat
  mm_filled_missing_value :: "real option"
  mm_summary :: summary
  mm_rr_zero_pct :: "real option"
  mm_rr_non_zero_pct :: "real option"

definition dataframe_to_matrix ::
  "long_frame \<Rightarrow> int list \<Rightarrow> real option \<Rightarrow> matrix \<times> model_matrix_stats" where
  "dataframe_to_matrix clean target_station_order fill_missing =
     (let pre_fill_missing = isna_sum (reindex_columns clean target_station_order);
          matrix = fillna fill_missing (reindex_columns clean target_station_order);
          flat_values = concat matrix;
          rr_series = flat_values
      in (\<lparr>mx_index = pivot_index clean, mx_columns = target_station_order, mx_rows = matrix\<rparr>,
          \<lparr>mm_output_time_count = length matrix,
           mm_output_station_count = length target_station_order,
           mm_pre_fill_missing_cells = pre_fill_missing,
           mm_filled_missing_value = fill_missing,
           mm_summary = summary_of (dropna rr_series),
           mm_rr_zero_pct =
             (if length rr_series \<noteq> 0
              then Some (real (length (filter (\<lambda>v. v = Some 0) rr_series)) / real (length rr_series) * 100)
              else None),
           mm_rr_non_zero_pct =
             (if length rr_series \<noteq> 0
              then Some (real (length (filter (\<lambda>v. case v of None \<Rightarrow> False | Some x \<Rightarrow> x > 0) rr_series))
                          / real (length rr_series) * 100)
              else None)\<rparr>))"

text \<open>
  The target codes of the three observed workflows (\<open>main\<close>):
  \<open>sorted(set(station_codes_sheet) | set(existing_data_codes))\<close>.
\<close>

definition target_codes_of :: "int list \<Rightarrow> int list \<Rightarrow> int list" where
  "target_codes_of station_codes_sheet existing_data_codes =
     sort (remdups (station_codes_sheet @ existing_data_codes))"

text \<open>
  \<open>build_station_order\<close> of prepare_precip_model.py (lines 174-184): the columns already in
  the template keep their order, the codes of the stations sheet and of the input that are
  new are appended in ascending order.
\<close>

definition build_station_order :: "int list \<Rightarrow> int list \<Rightarrow> int list \<Rightarrow> int list \<times> int list" where
  "build_station_order existing_order stations_sheet_codes input_codes =
     (let ordered = existing_order;
          to_add = sort (remdups (filter (\<lambda>c. c \<notin> set existing_order) (stations_sheet_codes @ input_codes)))
      in (ordered @ to_add, to_add))"

text \<open>The long frame that \<open>dataframe_to_matrix\<close> pivots: the cleaned rows of the model input.\<close>

definition clean_long :: "'a clean_row list \<Rightarrow> long_frame" where
  "clean_long rs = map (\<lambda>r. (cr_time r, cr_station_id r, cr_rr r)) rs"

text \<open>
  The matrix of the precipitation-model workflow as \<open>main\<close> builds it (lines 369-412):
  \<open>existing_order\<close> are the header codes of the template data sheet in column order,
  \<open>station_sheet_codes\<close> the codes of the stations sheet, the input codes come from the
  cleaned rows.
\<close>

definition model_matrix ::
  "int list \<Rightarrow> int list \<Rightarrow> 'a clean_row list \<Rightarrow> real option \<Rightarrow> matrix \<times> model_matrix_stats" where
  "model_matrix existing_order station_sheet_codes clean_df fill_missing =
     (let input_codes = sort (remdups (map cr_station_id clean_df));
          (target_station_order, added_codes) =
             build_station_order existing_order (sort station_sheet_codes) input_codes
      in dataframe_to_matrix (clean_long clean_df) target_station_order fill_missing)"

text \<open>A frame with one value for station 1 and none for station 2.\<close>

definition ex_long_frame :: long_frame where
  "ex_long_frame = [(0, 1, Some 5)]"

text \<open>A cleaned model input with one row, for station 1.\<close>

definition ex_clean_rows :: "unit clean_row list" where
  "ex_clean_rows = [\<lparr>cr_time = 0, cr_station_id = 1, cr_rr = Some 5, cr_rest = ()\<rparr>]"

text \<open>
  The two readings of the summary statistics: over the cells of the matrix after the fill
  value has been substituted, and over the valid cells before the substitution (the
  wording of the specification).
\<close>

definition stats_after_fill :: "long_frame \<Rightarrow> int list \<Rightarrow> real option \<Rightarrow> summary" where
  "stats_after_fill df tc fill = summary_of (dropna (concat (fillna fill (reindex_columns df tc))))"

definition stats_valid_only :: "long_frame \<Rightarrow> int list \<Rightarrow> summary" where
  "stats_valid_only df tc = summary_of (dropna (concat (reindex_columns df tc)))"

section \<open>Resampling (clean_and_resample of the flow and volume workflows)\<close>

text \<open>The Python exceptions and exits that the modelled functions can end in.\<close>

datatype py_error = ValueError | KeyError | IndexError | TypeError | SystemExit nat

text \<open>
  The reductions of pandas over the values of one bucket; nulls are skipped, and a bucket
  without a non-null value gives NaN (\<open>sum\<close> is called with \<open>min_count=1\<close>).
\<close>

definition median :: "real list \<Rightarrow> real" where
  "median vs =
     (let s = sort vs; n = length s
      in if odd n then s ! (n div 2) else (s ! (n div 2 - 1) + s ! (n div 2)) / 2)"

definition agg_mean :: "real option list \<Rightarrow> real option" where
  "agg_mean vs = (if dropna vs = [] then None else Some (mean (dropna vs)))"

definition agg_last :: "real option list \<Rightarrow> real option" where
  "agg_last vs = (if dropna vs = [] then None else Some (last (dropna vs)))"

definition agg_sum :: "real option list \<Rightarrow> real option" where
  "agg_sum vs = (if dropna vs = [] then None else Some (sum_list (dropna vs)))"

definition agg_max :: "real option list \<Rightarrow> real option" where
  "agg_max vs = (if dropna vs = [] then None else Some (Max (set (dropna vs))))"

definition agg_min :: "real option list \<Rightarrow> real option" where
  "agg_min vs = (if dropna vs = [] then None else Some (Min (set (dropna vs))))"

definition agg_median :: "real option list \<Rightarrow> real option" where
  "agg_median vs = (if dropna vs = [] then None else Some (median (dropna vs)))"

text \<open>
  \<open>--agg\<close> of the two argument parsers: argparse exits with status 2 on a value outside
  \<open>choices\<close>.
\<close>

definition flow_agg_choices :: "ustr list" where
  "flow_agg_choices = [u ''mean'', u ''last'', u ''sum'', u ''max'', u ''min'', u ''median'']"

definition volume_agg_choices :: "ustr list" where
  "volume_agg_choices = [u ''mean'', u ''last'', u ''min'', u ''max'', u ''median'']"

definition parse_agg :: "ustr list \<Rightarrow> ustr \<Rightarrow> py_error + ustr" where
  "parse_agg choices raw = (if raw \<in> set choices then Inr raw else Inl (SystemExit 2))"

text \<open>The dispatch on \<open>agg\<close> of prepare_flow_observed.py, lines 325-338.\<close>

definition flow_reducer :: "ustr \<Rightarrow> py_error + (real option list \<Rightarrow> real option)" where
  "flow_reducer agg =
     (if agg = u ''mean'' then Inr agg_mean
      else if agg = u ''last'' then Inr agg_last
      else if agg = u ''sum'' then Inr agg_sum
      else if agg = u ''max'' then Inr agg_max
      else if agg = u ''min'' then Inr agg_min
      else if agg = u ''median'' then Inr agg_median
      else Inl ValueError)"

text \<open>The dispatch of prepare_volume_observed.py, lines 252-261: the last branch is an else.\<close>

definition volume_reducer :: "ustr \<Rightarrow> real option list \<Rightarrow> real option" where
  "volume_reducer agg =
     (if agg = u ''mean'' then agg_mean
      else if agg = u ''last'' then agg_last
      else if agg = u ''min'' then agg_min
      else if agg = u ''max'' then agg_max
      else agg_median)"

text \<open>
  A row with its station code, time and value; the frame is sorted by (station_id, time)
  before it is grouped.
\<close>

type_synonym station_frame = "(int \<times> timestamp \<times> real option) list"

text \<open>
  \<open>Series.resample(rule)\<close> on the time-indexed series of one station, for a rule of fixed
  width \<open>w\<close> seconds: the bins are left-closed, anchored at midnight of the day of the
  first sample, and run from the bin of the first sample to the bin of the last one; a bin
  without a sample is kept, with the reduction of the empty list.
\<close>

definition bin_start :: "nat \<Rightarrow> timestamp \<Rightarrow> timestamp \<Rightarrow> timestamp" where
  "bin_start w origin t = origin + ((t - origin) div int w) * int w"

definition bucket_values :: "nat \<Rightarrow> (timestamp \<times> real option) list \<Rightarrow> timestamp \<Rightarrow> real option list" where
  "bucket_values w series b = map snd (filter (\<lambda>(t, v). b \<le> t \<and> t < b + int w) series)"

definition resample_series ::
  "nat \<Rightarrow> (real option list \<Rightarrow> real option) \<Rightarrow> (timestamp \<times> real option) list
     \<Rightarrow> (timestamp \<times> real option) list" where
  "resample_series w reducer series =
     (if series = [] then []
      else
        (let t0 = fst (hd series); tn = fst (last series);
             origin = (t0 div 86400) * 86400;
             first_bin = bin_start w origin t0;
             nbins = nat ((tn - first_bin) div int w) + 1
         in map (\<lambda>i. (first_bin + int i * int w,
                       reducer (bucket_values w series (first_bin + int i * int w))))
                [0..<nbins]))"

text \<open>\<open>groupby("station_id")["value"].resample(rule).agg().reset_index()\<close>\<close>

definition station_series :: "station_frame \<Rightarrow> int \<Rightarrow> (timestamp \<times> real option) list" where
  "station_series df s = map snd (filter (\<lambda>(s', t, v). s' = s) df)"

definition resample_frame ::
  "nat \<Rightarrow> (real option list \<Rightarrow> real option) \<Rightarrow> station_frame \<Rightarrow> station_frame" where
  "resample_frame w reducer df =
     concat (map (\<lambda>s. map (\<lambda>(b, v). (s, b, v)) (resample_series w reducer (station_series df s)))
                 (sort (remdups (map fst df))))"

text \<open>A row handed to \<open>clean_and_resample\<close>: raw time and value cells, and the mapped code.\<close>

record mapped_row =
  mp_time :: cell
  mp_source_col :: ustr
  mp_value :: cell
  mp_station_id :: int

record resample_stats =
  rs_rows_after :: nat
  rs_native_step_minutes_median :: "real option"
  rs_invalid_time_rows :: nat
  rs_invalid_value_rows :: nat
  rs_negative_value_rows :: nat
  rs_duplicate_rows_removed :: nat

text \<open>The conversions shared by both scripts (flow lines 295-311, volume lines 230-246).\<close>

definition resample_convert ::
  "(cell \<Rightarrow> timestamp option) \<Rightarrow> (cell \<Rightarrow> ustr) \<Rightarrow> (cell \<Rightarrow> real option) \<Rightarrow> mapped_row list
     \<Rightarrow> station_frame \<times> nat \<times> nat \<times> nat" where
  "resample_convert to_datetime astype_str to_numeric rows =
     (let timed = map (\<lambda>r. (to_datetime (mp_time r), r)) rows;
          bad_time = length (filter (\<lambda>(t, r). t = None) timed);
          timed' = (if bad_time > 0 then filter (\<lambda>(t, r). t \<noteq> None) timed else timed);
          conv = map (\<lambda>(t, r). (mp_station_id r, the t,
                                  to_numeric (CStr (comma_to_dot (astype_str (mp_value r)))))) timed';
          bad_val = length (filter (\<lambda>(s, t, v). v = None) conv);
          negative_count = length (filter (\<lambda>(s, t, v). case v of None \<Rightarrow> False | Some x \<Rightarrow> x < 0) conv)
      in (sort_key (\<lambda>(s, t, v). (s, t)) conv, bad_time, bad_val, negative_count))"

text \<open>The median, in minutes, of the time steps between consecutive rows of a station.\<close>

definition native_step_minutes :: "station_frame \<Rightarrow> real option" where
  "native_step_minutes df =
     (let d = concat (map (\<lambda>s. let ts = map (\<lambda>(s', t, v). t) (filter (\<lambda>(s', t, v). s' = s) df)
                                 in map (\<lambda>(a, b). real_of_int (b - a) / 60) (zip ts (tl ts)))
                          (sort (remdups (map fst df))))
      in if length d > 0 then Some (median d) else None)"

text \<open>
  \<open>clean_and_resample\<close> of prepare_flow_observed.py. \<open>parse_rule\<close> is pandas reading the
  rule string as a fixed width in seconds (None when pandas rejects it). On a frame left without
  rows the grouped resampling yields a series that has lost its \<open>station_id\<close> level, and
  \<open>out.duplicated(subset=["time", "station_id"])\<close> of line 350 raises KeyError.
\<close>

definition clean_and_resample_flow ::
  "(cell \<Rightarrow> timestamp option) \<Rightarrow> (cell \<Rightarrow> ustr) \<Rightarrow> (cell \<Rightarrow> real option) \<Rightarrow> (ustr \<Rightarrow> nat option)
     \<Rightarrow> mapped_row list \<Rightarrow> ustr \<Rightarrow> ustr \<Rightarrow> py_error + (station_frame \<times> warning list \<times> resample_stats)" where
  "clean_and_resample_flow to_datetime astype_str to_numeric parse_rule df resample_rule agg =
     (let (out, bad_time, bad_val, negative_count) = resample_convert to_datetime astype_str to_numeric df;
          step_minutes = native_step_minutes out;
          resampled =
            (if resample_rule \<noteq> [] then
               (case flow_reducer agg of
                  Inl e \<Rightarrow> Inl e
                | Inr f \<Rightarrow>
                   (case parse_rule resample_rule of
                      None \<Rightarrow> Inl ValueError
                    | Some w \<Rightarrow>
                       if w = 0 then Inl ValueError
                       else if out = [] then Inl KeyError
                       else Inr (resample_frame w f out)))
             else Inr out)
      in case resampled of
           Inl e \<Rightarrow> Inl e
         | Inr rs \<Rightarrow>
            (let (dedup, dup_count) = drop_duplicates_keep_last (\<lambda>(s, t, v). (t, s)) rs;
                 final = sort_key (\<lambda>(s, t, v). (t, s)) dedup;
                 warnings =
                   (if bad_time > 0 then [InvalidTimestamps bad_time] else []) @
                   (if bad_val > 0 then [NonNumericValues bad_val] else []) @
                   (if negative_count > 0 then [NegativeValues negative_count] else []) @
                   (if dup_count > 0 then [DuplicateRowsRemoved dup_count] else [])
             in Inr (final, warnings,
                     \<lparr>rs_rows_after = length final, rs_native_step_minutes_median = step_minutes,
                      rs_invalid_time_rows = bad_time, rs_invalid_value_rows = bad_val,
                      rs_negative_value_rows = negative_count,
                      rs_duplicate_rows_removed = dup_count\<rparr>)))"

text \<open>\<open>clean_and_resample\<close> of prepare_volume_observed.py: it always resamples.\<close>

definition clean_and_resample_volume ::
  "(cell \<Rightarrow> timestamp option) \<Rightarrow> (cell \<Rightarrow> ustr) \<Rightarrow> (cell \<Rightarrow> real option) \<Rightarrow> (ustr \<Rightarrow> nat option)
     \<Rightarrow> mapped_row list \<Rightarrow> ustr \<Rightarrow> ustr \<Rightarrow> py_error + (station_frame \<times> warning list \<times> resample_stats)" where
  "clean_and_resample_volume to_datetime astype_str to_numeric parse_rule df rule agg =
     (let (out, bad_time, bad_val, neg) = resample_convert to_datetime astype_str to_numeric df;
          step_median = native_step_minutes out
      in case parse_rule rule of
           None \<Rightarrow> Inl ValueError
         | Some w \<Rightarrow>
            if w = 0 then Inl ValueError
            else
              (let rs = resample_frame w (volume_reducer agg) out;
                   warnings =
                     (if bad_time > 0 then [InvalidTimestamps bad_time] else []) @
                     (if bad_val > 0 then [NonNumericValues bad_val] else []) @
                     (if neg > 0 then [NegativeValues neg] else [])
               in Inr (rs, warnings,
                       \<lparr>rs_rows_after = length rs, rs_native_step_minutes_median = step_median,
                        rs_invalid_time_rows = bad_time, rs_invalid_value_rows = bad_val,
                        rs_negative_value_rows = neg, rs_duplicate_rows_removed = 0\<rparr>)))"

text \<open>Three samples of station 1 in one hourly bucket, with the values 1, 2, 3.\<close>

definition ex_mapped_rows :: "mapped_row list" where
  "ex_mapped_rows =
     [\<lparr>mp_time = CTime 0, mp_source_col = u ''A'', mp_value = CStr (u ''1''), mp_station_id = 1\<rparr>,
      \<lparr>mp_time = CTime 1200, mp_source_col = u ''A'', mp_value = CStr (u ''2''), mp_station_id = 1\<rparr>,
      \<lparr>mp_time = CTime 2400, mp_source_col = u ''A'', mp_value = CStr (u ''3''), mp_station_id = 1\<rparr>]"

definition ex_parse_rule :: "ustr \<Rightarrow> nat option" where
  "ex_parse_rule r = (if r = u ''1h'' then Some 3600 else None)"

section \<open>Text normalizer (normalize_text of the flow, volume and observed-precipitation scripts)\<close>

text \<open>
  The Unicode character data that Python's \<open>str.lower\<close>, \<open>str.strip\<close>, \<open>str.split\<close>
  and \<open>unicodedata\<close> read is a parameter: the full lower-case mapping of a code point, the
  Cased and Case_Ignorable properties (for the final sigma), the white-space property, the
  full compatibility decomposition of a code point and its canonical combining class.
\<close>

record unicode_db =
  ud_lower :: "nat \<Rightarrow> nat list"
  ud_cased :: "nat \<Rightarrow> bool"
  ud_case_ignorable :: "nat \<Rightarrow> bool"
  ud_space :: "nat \<Rightarrow> bool"
  ud_decomp :: "nat \<Rightarrow> nat list"
  ud_combining :: "nat \<Rightarrow> nat"

text \<open>\<open>s.strip()\<close>\<close>

definition str_strip :: "unicode_db \<Rightarrow> ustr \<Rightarrow> ustr" where
  "str_strip db s = rev (dropWhile (ud_space db) (rev (dropWhile (ud_space db) s)))"

text \<open>
  \<open>s.lower()\<close>: every code point is replaced by its full lower-case mapping, except the
  capital sigma U+03A3, which becomes the final sigma U+03C2 when a cased letter precedes it
  and none follows it (case-ignorable code points skipped), and U+03C3 otherwise.
  \<open>passed\<close> holds the code points already passed, the nearest first.
\<close>

definition handle_capital_sigma :: "unicode_db \<Rightarrow> ustr \<Rightarrow> ustr \<Rightarrow> nat" where
  "handle_capital_sigma db passed coming =
     (let b = dropWhile (ud_case_ignorable db) passed;
          a = dropWhile (ud_case_ignorable db) coming;
          final_sigma = (b \<noteq> [] \<and> ud_cased db (hd b)) \<and> (a = [] \<or> \<not> ud_cased db (hd a))
      in if final_sigma then 962 else 963)"

fun lower_from :: "unicode_db \<Rightarrow> ustr \<Rightarrow> ustr \<Rightarrow> ustr" where
  "lower_from db passed [] = []"
| "lower_from db passed (c # cs) =
     (if c = 931 then [handle_capital_sigma db passed cs] else ud_lower db c)
       @ lower_from db (c # passed) cs"

definition str_lower :: "unicode_db \<Rightarrow> ustr \<Rightarrow> ustr" where
  "str_lower db s = lower_from db [] s"

text \<open>
  \<open>unicodedata.normalize("NFKD", s)\<close>: every code point is decomposed, then every maximal run
  of code points with a non-zero combining class is sorted stably by combining class.
  \<open>run\<close> is the run collected so far.
\<close>

fun canonical_order :: "unicode_db \<Rightarrow> ustr \<Rightarrow> ustr \<Rightarrow> ustr" where
  "canonical_order db run [] = sort_key (ud_combining db) run"
| "canonical_order db run (c # cs) =
     (if ud_combining db c = 0 then sort_key (ud_combining db) run @ c # canonical_order db [] cs
      else canonical_order db (run @ [c]) cs)"

definition nfkd :: "unicode_db \<Rightarrow> ustr \<Rightarrow> ustr" where
  "nfkd db s = canonical_order db [] (concat (map (ud_decomp db) s))"

text \<open>\<open>"".join(ch for ch in s if not unicodedata.combining(ch))\<close>\<close>

definition drop_combining :: "unicode_db \<Rightarrow> ustr \<Rightarrow> ustr" where
  "drop_combining db s = filter (\<lambda>ch. ud_combining db ch = 0) s"

text \<open>
  \<open>s.replace(old, new)\<close> for a non-empty \<open>old\<close>: the occurrences are replaced from the left
  and do not overlap. \<open>skip\<close> counts the code points of a replaced occurrence still to pass.
\<close>

fun replace_from :: "ustr \<Rightarrow> ustr \<Rightarrow> nat \<Rightarrow> ustr \<Rightarrow> ustr" where
  "replace_from old new skip [] = []"
| "replace_from old new (Suc k) (c # cs) = replace_from old new k cs"
| "replace_from old new 0 (c # cs) =
     (if prefix old (c # cs) then new @ replace_from old new (length old - 1) cs
      else c # replace_from old new 0 cs)"

definition str_replace :: "ustr \<Rightarrow> ustr \<Rightarrow> ustr \<Rightarrow> ustr" where
  "str_replace old new s = replace_from old new 0 s"

text \<open>
  \<open>re.sub(r"[^a-z0-9 ]+", " ", s)\<close>: every maximal run of code points outside the class
  becomes one space. \<open>in_run\<close> tells that the previous code point was outside the class.
\<close>

definition in_class :: "nat \<Rightarrow> bool" where
  "in_class c \<longleftrightarrow> (97 \<le> c \<and> c \<le> 122) \<or> (48 \<le> c \<and> c \<le> 57) \<or> c = 32"

fun sub_outside :: "bool \<Rightarrow> ustr \<Rightarrow> ustr" where
  "sub_outside in_run [] = []"
| "sub_outside in_run (c # cs) =
     (if in_class c then c # sub_outside False cs
      else if in_run then sub_outside True cs
      else 32 # sub_outside True cs)"

text \<open>\<open>s.split()\<close>: the maximal runs of code points that are not white space.\<close>

fun split_from :: "unicode_db \<Rightarrow> ustr \<Rightarrow> ustr \<Rightarrow> ustr list" where
  "split_from db word [] = (if word = [] then [] else [word])"
| "split_from db word (c # cs) =
     (if ud_space db c then (if word = [] then split_from db [] cs else word # split_from db [] cs)
      else split_from db (word @ [c]) cs)"

definition str_split :: "unicode_db \<Rightarrow> ustr \<Rightarrow> ustr list" where
  "str_split db s = split_from db [] s"

text \<open>\<open>" ".join(words)\<close>\<close>

fun join_space :: "ustr list \<Rightarrow> ustr" where
  "join_space [] = []"
| "join_space [w] = w"
| "join_space (w # ws) = w @ 32 # join_space ws"

text \<open>
  \<open>normalize_text\<close> of prepare_flow_observed.py (lines 30-41). The argument is \<open>None\<close> or
  the text \<open>str(value)\<close>; the accented literal of line 36 has the code point 233.
\<close>

definition normalize_text_flow :: "unicode_db \<Rightarrow> ustr option \<Rightarrow> ustr" where
  "normalize_text_flow db val =
     (case val of
        None \<Rightarrow> []
      | Some v \<Rightarrow>
         (let s = str_lower db (str_strip db v);
              s = nfkd db s;
              s = drop_combining db s;
              s = str_replace (u ''d'' @ [233] @ u ''bit'') (u ''debit'') s;
              s = str_replace (u ''(m3/s)'') [] s;
              s = str_replace (u ''_'') (u '' '') s;
              s = sub_outside False s
          in join_space (str_split db s)))"

text \<open>\<open>normalize_text\<close> of prepare_volume_observed.py (lines 23-33).\<close>

definition normalize_text_volume :: "unicode_db \<Rightarrow> ustr option \<Rightarrow> ustr" where
  "normalize_text_volume db val =
     (case val of
        None \<Rightarrow> []
      | Some v \<Rightarrow>
         (let s = str_lower db (str_strip db v);
              s = nfkd db s;
              s = drop_combining db s;
              s = str_replace (u ''_'') (u '' '') s;
              s = str_replace (u ''(mm 3)'') [] (str_replace (u ''(mm3)'') [] s);
              s = str_replace (u ''(hm 3)'') [] (str_replace (u ''(hm3)'') [] s);
              s = sub_outside False s
          in join_space (str_split db s)))"

text \<open>\<open>normalize_text\<close> of prepare_precip_observed.py (lines 24-27).\<close>

definition normalize_text_obs :: "unicode_db \<Rightarrow> ustr option \<Rightarrow> ustr" where
  "normalize_text_obs db val =
     (case val of
        None \<Rightarrow> []
      | Some v \<Rightarrow>
         join_space (str_split db (str_replace (u ''_'') (u '' '') (str_lower db (str_strip db v)))))"

text \<open>
  The facts of the Unicode character data that the normalizers rely on: on ASCII the
  lower-case mapping changes the capital letters only, nothing decomposes and nothing
  combines, and the white space is the tab, the line breaks, the separators 28 to 31 and the
  space; a lower-case mapping yields code points that are their own lower case and is never
  the capital sigma; e with acute (233) is lower case and decomposes into e and the combining
  acute accent (769).
\<close>

definition unicode_ok :: "unicode_db \<Rightarrow> bool" where
  "unicode_ok db \<longleftrightarrow>
     (\<forall>c < 128. ud_lower db c = [if 65 \<le> c \<and> c \<le> 90 then c + 32 else c]) \<and>
     (\<forall>c < 128. ud_decomp db c = [c]) \<and>
     (\<forall>c < 128. ud_combining db c = 0) \<and>
     (\<forall>c < 128. ud_space db c \<longleftrightarrow> (9 \<le> c \<and> c \<le> 13) \<or> (28 \<le> c \<and> c \<le> 32)) \<and>
     (\<forall>c. \<forall>c' \<in> set (ud_lower db c). ud_lower db c' = [c'] \<and> c' \<noteq> 931) \<and>
     ud_lower db 962 = [962] \<and> ud_lower db 963 = [963] \<and>
     ud_lower db 233 = [233] \<and> \<not> ud_space db 233 \<and>
     ud_decomp db 233 = [101, 769] \<and> ud_combining db 769 \<noteq> 0"

text \<open>
  A fragment of the Unicode character data, for evaluating examples: ASCII, the Latin-1
  letters, the combining diacritical marks and the Greek sigmas.
\<close>

definition ex_db :: unicode_db where
  "ex_db =
     \<lparr>ud_lower = (\<lambda>c. if (65 \<le> c \<and> c \<le> 90) \<or> (192 \<le> c \<and> c \<le> 222 \<and> c \<noteq> 215) then [c + 32]
                       else if c = 931 then [963] else [c]),
      ud_cased = (\<lambda>c. (65 \<le> c \<and> c \<le> 90) \<or> (97 \<le> c \<and> c \<le> 122) \<or> (192 \<le> c \<and> c \<le> 255 \<and> c \<noteq> 215 \<and> c \<noteq> 247)
                       \<or> c = 931 \<or> c = 962 \<or> c = 963),
      ud_case_ignorable = (\<lambda>c. c = 39 \<or> c = 46 \<or> c = 58 \<or> c = 94 \<or> c = 96 \<or> (768 \<le> c \<and> c \<le> 879)),
      ud_space = (\<lambda>c. (9 \<le> c \<and> c \<le> 13) \<or> (28 \<le> c \<and> c \<le> 32) \<or> c = 133 \<or> c = 160),
      ud_decomp = (\<lambda>c. if c = 233 then [101, 769] else if c = 201 then [69, 769]
                        else if c = 232 then [101, 768] else if c = 224 then [97, 768]
                        else if c = 160 then [32] else [c]),
      ud_combining = (\<lambda>c. if 768 \<le> c \<and> c \<le> 788 then 230 else 0)\<rparr>"

text \<open>The label of the specification's example, with e acute as code point 233.\<close>

definition ex_label_debit :: ustr where
  "ex_label_debit = u ''D'' @ [233] @ u ''bit (m3/s)''"

section \<open>Station resolver (map_columns_to_codes, map_stations)\<close>

text \<open>
  The alias table is a dict: an association list in insertion order. \<open>dict_get\<close> is
  \<open>d.get(k)\<close>, \<open>dict_item\<close> is \<open>d[k]\<close>, which raises KeyError on a missing key.
\<close>

type_synonym ('k, 'v) dict = "('k \<times> 'v) list"

definition dict_get :: "('k, 'v) dict \<Rightarrow> 'k \<Rightarrow> 'v option" where
  "dict_get d k = map_of d k"

definition dict_set :: "('k, 'v) dict \<Rightarrow> 'k \<Rightarrow> 'v \<Rightarrow> ('k, 'v) dict" where
  "dict_set d k v = AList.update k v d"

definition dict_item :: "('k, 'v) dict \<Rightarrow> 'k \<Rightarrow> py_error + 'v" where
  "dict_item d k = (case map_of d k of None \<Rightarrow> Inl KeyError | Some v \<Rightarrow> Inr v)"

text \<open>
  \<open>difflib.get_close_matches(word, possibilities, n=1, cutoff=cutoff)\<close>. The similarity
  ratio of \<open>difflib.SequenceMatcher\<close> is a parameter, called with the possibility first
  and the word second, as difflib does; its value \<open>2M/T\<close> is a rational number. The
  possibilities that score at least the cutoff are collected with their score, and the
  greatest pair (score, possibility) is returned.
\<close>

definition get_close_matches ::
  "(ustr \<Rightarrow> ustr \<Rightarrow> rat) \<Rightarrow> ustr \<Rightarrow> ustr list \<Rightarrow> rat \<Rightarrow> ustr list" where
  "get_close_matches ratio word possibilities cutoff =
     (let result = map (\<lambda>x. (ratio x word, x)) (filter (\<lambda>x. ratio x word \<ge> cutoff) possibilities)
      in if result = [] then [] else [snd (Max (set result))])"

text \<open>A long-format input row: raw time, source column label, raw value.\<close>

record source_row =
  sr_time :: cell
  sr_source_col :: ustr
  sr_value :: cell

text \<open>The state of the loop over the source columns.\<close>

record resolver_state =
  rv_col_to_code :: "(ustr, int) dict"
  rv_exact_matches :: nat
  rv_fuzzy_matches :: nat
  rv_fuzzy_details :: "(ustr \<times> int \<times> ustr \<times> ustr) list"
  rv_unmapped_cols :: "ustr list"

definition resolver_init :: resolver_state where
  "resolver_init = \<lparr>rv_col_to_code = [], rv_exact_matches = 0, rv_fuzzy_matches = 0,
                     rv_fuzzy_details = [], rv_unmapped_cols = []\<rparr>"

record mapping_stats =
  mp_source_station_columns :: nat
  mp_exact_column_matches :: nat
  mp_fuzzy_column_matches :: nat
  mp_unmapped_station_columns :: "ustr list"
  mp_rows_dropped_unmapped :: nat

text \<open>
  One iteration of the loop of \<open>map_columns_to_codes\<close> (prepare_flow_observed.py, lines
  246-265); the cutoff is 0.82.
\<close>

definition flow_resolve_step ::
  "unicode_db \<Rightarrow> (ustr \<Rightarrow> ustr \<Rightarrow> rat) \<Rightarrow> (ustr, int) dict \<Rightarrow> (int, ustr) dict
     \<Rightarrow> resolver_state \<Rightarrow> ustr \<Rightarrow> py_error + resolver_state" where
  "flow_resolve_step db ratio alias_to_code code_to_name st col =
     (let norm = normalize_text_flow db (Some col);
          known_aliases = map fst alias_to_code
      in case dict_get alias_to_code norm of
           Some code \<Rightarrow>
             Inr (st\<lparr>rv_col_to_code := dict_set (rv_col_to_code st) col code,
                     rv_exact_matches := rv_exact_matches st + 1\<rparr>)
         | None \<Rightarrow>
             (case (if known_aliases \<noteq> [] then get_close_matches ratio norm known_aliases (82 / 100) else []) of
                b # _ \<Rightarrow>
                  (case dict_item alias_to_code b of
                     Inl e \<Rightarrow> Inl e
                   | Inr code \<Rightarrow>
                      Inr (st\<lparr>rv_col_to_code := dict_set (rv_col_to_code st) col code,
                              rv_fuzzy_matches := rv_fuzzy_matches st + 1,
                              rv_fuzzy_details := rv_fuzzy_details st @
                                [(col, code, case dict_get code_to_name code of None \<Rightarrow> [] | Some n \<Rightarrow> n, b)]\<rparr>))
              | [] \<Rightarrow> Inr (st\<lparr>rv_unmapped_cols := rv_unmapped_cols st @ [col]\<rparr>)))"

text \<open>One iteration of the loop of \<open>map_stations\<close> (prepare_volume_observed.py, lines 190-205); the cutoff is 0.8.\<close>

definition volume_resolve_step ::
  "unicode_db \<Rightarrow> (ustr \<Rightarrow> ustr \<Rightarrow> rat) \<Rightarrow> (ustr, int) dict \<Rightarrow> (int, ustr) dict
     \<Rightarrow> resolver_state \<Rightarrow> ustr \<Rightarrow> py_error + resolver_state" where
  "volume_resolve_step db ratio alias_to_code code_to_name st c =
     (let n = normalize_text_volume db (Some c);
          aliases = map fst alias_to_code
      in case dict_get alias_to_code n of
           Some code \<Rightarrow>
             Inr (st\<lparr>rv_col_to_code := dict_set (rv_col_to_code st) c code,
                     rv_exact_matches := rv_exact_matches st + 1\<rparr>)
         | None \<Rightarrow>
             (case get_close_matches ratio n aliases (8 / 10) of
                b # _ \<Rightarrow>
                  (case dict_item alias_to_code b of
                     Inl e \<Rightarrow> Inl e
                   | Inr code \<Rightarrow>
                      Inr (st\<lparr>rv_col_to_code := dict_set (rv_col_to_code st) c code,
                              rv_fuzzy_matches := rv_fuzzy_matches st + 1,
                              rv_fuzzy_details := rv_fuzzy_details st @
                                [(c, code, case dict_get code_to_name code of None \<Rightarrow> [] | Some n \<Rightarrow> n, b)]\<rparr>))
              | [] \<Rightarrow> Inr (st\<lparr>rv_unmapped_cols := rv_unmapped_cols st @ [c]\<rparr>)))"

text \<open>The loop: the steps in the order of the columns, stopping at an exception.\<close>

fun resolve_loop ::
  "(resolver_state \<Rightarrow> ustr \<Rightarrow> py_error + resolver_state) \<Rightarrow> resolver_state \<Rightarrow> ustr list
     \<Rightarrow> py_error + resolver_state" where
  "resolve_loop step st [] = Inr st"
| "resolve_loop step st (col # cols) =
     (case step st col of Inl e \<Rightarrow> Inl e | Inr st' \<Rightarrow> resolve_loop step st' cols)"

text \<open>
  The part after the loop, shared by both scripts: the warnings, the station code of each
  row, and the rows without a code dropped.
\<close>

definition resolver_finish ::
  "ustr list \<Rightarrow> resolver_state \<Rightarrow> source_row list \<Rightarrow> mapped_row list \<times> mapping_stats \<times> warning list" where
  "resolver_finish source_cols st rows =
     (let warnings =
            (if rv_fuzzy_details st \<noteq> [] then [FuzzyMappingUsed (rv_fuzzy_details st)] else []) @
            (if rv_unmapped_cols st \<noteq> [] then [UnmappedColumns (rv_unmapped_cols st)] else []);
          coded = map (\<lambda>r. (r, dict_get (rv_col_to_code st) (sr_source_col r))) rows;
          dropped = length (filter (\<lambda>(r, c). c = None) coded);
          out = map (\<lambda>(r, c). \<lparr>mp_time = sr_time r, mp_source_col = sr_source_col r,
                                  mp_value = sr_value r, mp_station_id = the c\<rparr>)
                    (filter (\<lambda>(r, c). c \<noteq> None) coded)
      in (out,
          \<lparr>mp_source_station_columns = length source_cols,
           mp_exact_column_matches = rv_exact_matches st,
           mp_fuzzy_column_matches = rv_fuzzy_matches st,
           mp_unmapped_station_columns = rv_unmapped_cols st,
           mp_rows_dropped_unmapped = dropped\<rparr>,
          warnings))"

definition map_columns_to_codes ::
  "unicode_db \<Rightarrow> (ustr \<Rightarrow> ustr \<Rightarrow> rat) \<Rightarrow> source_row list \<Rightarrow> (ustr, int) dict \<Rightarrow> (int, ustr) dict
     \<Rightarrow> py_error + (mapped_row list \<times> mapping_stats \<times> warning list)" where
  "map_columns_to_codes db ratio df alias_to_code code_to_name =
     (let source_cols = sort (remdups (map sr_source_col df))
      in case resolve_loop (flow_resolve_step db ratio alias_to_code code_to_name) resolver_init source_cols of
           Inl e \<Rightarrow> Inl e
         | Inr st \<Rightarrow> Inr (resolver_finish source_cols st df))"

definition map_stations_volume ::
  "unicode_db \<Rightarrow> (ustr \<Rightarrow> ustr \<Rightarrow> rat) \<Rightarrow> source_row list \<Rightarrow> (ustr, int) dict \<Rightarrow> (int, ustr) dict
     \<Rightarrow> py_error + (mapped_row list \<times> mapping_stats \<times> warning list)" where
  "map_stations_volume db ratio long_df alias_to_code code_to_name =
     (let source_cols = sort (remdups (map sr_source_col long_df))
      in case resolve_loop (volume_resolve_step db ratio alias_to_code code_to_name) resolver_init source_cols of
           Inl e \<Rightarrow> Inl e
         | Inr st \<Rightarrow> Inr (resolver_finish source_cols st long_df))"

text \<open>
  The resolve phase in the words of the specification: normalize the label; an exact lookup
  in the alias table gives method exact; else the best match among the alias keys, accepted
  only if its ratio is at least the cutoff, gives method fuzzy; else the label is unmapped.
\<close>

datatype resolve_method = Exact | Fuzzy

definition best_alias :: "(ustr \<Rightarrow> ustr \<Rightarrow> rat) \<Rightarrow> rat \<Rightarrow> ustr list \<Rightarrow> ustr \<Rightarrow> ustr option" where
  "best_alias ratio cutoff keys word =
     (let good = filter (\<lambda>k. ratio k word \<ge> cutoff) keys
      in if good = [] then None else Some (snd (Max (set (map (\<lambda>k. (ratio k word, k)) good)))))"

definition resolve_label ::
  "(ustr \<Rightarrow> ustr) \<Rightarrow> (ustr \<Rightarrow> ustr \<Rightarrow> rat) \<Rightarrow> rat \<Rightarrow> (ustr, int) dict \<Rightarrow> ustr
     \<Rightarrow> (int \<times> resolve_method) option" where
  "resolve_label normalizer ratio cutoff alias_to_code label =
     (case map_of alias_to_code (normalizer label) of
        Some code \<Rightarrow> Some (code, Exact)
      | None \<Rightarrow>
         (case best_alias ratio cutoff (map fst alias_to_code) (normalizer label) of
            None \<Rightarrow> None
          | Some b \<Rightarrow> map_option (\<lambda>code. (code, Fuzzy)) (map_of alias_to_code b)))"

text \<open>The rows that the resolve phase keeps, each with the code of its label.\<close>

definition resolved_rows :: "(ustr \<Rightarrow> (int \<times> resolve_method) option) \<Rightarrow> source_row list \<Rightarrow> mapped_row list" where
  "resolved_rows res rows =
     concat (map (\<lambda>r. case res (sr_source_col r) of
                         None \<Rightarrow> []
                       | Some (code, m) \<Rightarrow> [\<lparr>mp_time = sr_time r, mp_source_col = sr_source_col r,
                                               mp_value = sr_value r, mp_station_id = code\<rparr>]) rows)"

text \<open>
  An example: the alias table of a station Zrarda with code 7, the ratio difflib computes
  for the drifted spelling (12 matching characters out of 12 + 13), and 0 for other pairs.
\<close>

definition ex_alias_to_code :: "(ustr, int) dict" where
  "ex_alias_to_code = [(u ''zrarda'', 7), (u ''zrarda debit'', 7)]"

definition ex_ratio :: "ustr \<Rightarrow> ustr \<Rightarrow> rat" where
  "ex_ratio a b = (if a = u ''zrarda debit'' \<and> b = u ''zerarda debit'' then 24 / 25 else 0)"

definition ex_source_rows :: "source_row list" where
  "ex_source_rows =
     [\<lparr>sr_time = CTime 0, sr_source_col = u ''Zerarda debit'', sr_value = CStr (u ''1'')\<rparr>,
      \<lparr>sr_time = CTime 0, sr_source_col = u ''Zrarda_Debit (m3/s)'', sr_value = CStr (u ''2'')\<rparr>,
      \<lparr>sr_time = CTime 0, sr_source_col = u ''Unknown Col'', sr_value = CStr (u ''3'')\<rparr>]"

text \<open>The update of the loop state that a resolution of a label amounts to.\<close>

definition apply_resolution ::
  "(int, ustr) dict \<Rightarrow> ustr option \<Rightarrow> resolver_state \<Rightarrow> ustr \<Rightarrow> (int \<times> resolve_method) option \<Rightarrow> resolver_state" where
  "apply_resolution code_to_name best st col res =
     (case res of
        None \<Rightarrow> st\<lparr>rv_unmapped_cols := rv_unmapped_cols st @ [col]\<rparr>
      | Some (code, Exact) \<Rightarrow>
          st\<lparr>rv_col_to_code := dict_set (rv_col_to_code st) col code,
             rv_exact_matches := rv_exact_matches st + 1\<rparr>
      | Some (code, Fuzzy) \<Rightarrow>
          st\<lparr>rv_col_to_code := dict_set (rv_col_to_code st) col code,
             rv_fuzzy_matches := rv_fuzzy_matches st + 1,
             rv_fuzzy_details := rv_fuzzy_details st @
               [(col, code, case dict_get code_to_name code of None \<Rightarrow> [] | Some n \<Rightarrow> n, the best)]\<rparr>)"

text \<open>What a run of the resolver returns, in terms of the resolution of each label.\<close>

definition resolver_result ::
  "(ustr \<Rightarrow> (int \<times> resolve_method) option) \<Rightarrow> source_row list
     \<Rightarrow> py_error + (mapped_row list \<times> mapping_stats \<times> warning list) \<Rightarrow> bool" where
  "resolver_result res rows result \<longleftrightarrow>
     (\<exists>out stats ws. result = Inr (out, stats, ws) \<and>
        out = resolved_rows res rows \<and>
        mp_unmapped_station_columns stats
          = filter (\<lambda>c. res c = None) (sort (remdups (map sr_source_col rows))) \<and>
        mp_exact_column_matches stats
          = length (filter (\<lambda>c. \<exists>code. res c = Some (code, Exact)) (sort (remdups (map sr_source_col rows)))) \<and>
        mp_fuzzy_column_matches stats
          = length (filter (\<lambda>c. \<exists>code. res c = Some (code, Fuzzy)) (sort (remdups (map sr_source_col rows)))) \<and>
        mp_rows_dropped_unmapped stats = length (filter (\<lambda>r. res (sr_source_col r) = None) rows) \<and>
        (UnmappedColumns (mp_unmapped_station_columns stats) \<in> set ws
           \<longleftrightarrow> mp_unmapped_station_columns stats \<noteq> []))"

section \<open>Worksheets and the consolidator (_consolidate_outputs of hydro_sentinel_ui.py)\<close>

text \<open>
  An openpyxl worksheet: its extent and the value of each cell (row, column), both counted
  from 1. A workbook is the dict of its sheets by name.
\<close>

record sheet =
  ws_max_row :: nat
  ws_max_column :: nat
  ws_cell :: "nat \<Rightarrow> nat \<Rightarrow> cell"

type_synonym workbook = "(ustr, sheet) dict"

text \<open>
  \<open>ws.cell(r, c, value=v)\<close>: the extent grows to include the cell, and openpyxl assigns the
  value only when it is not \<open>None\<close>, so that \<open>value=None\<close> leaves the cell as it was.
\<close>

definition set_cell :: "sheet \<Rightarrow> nat \<Rightarrow> nat \<Rightarrow> cell \<Rightarrow> sheet" where
  "set_cell ws r c v =
     ws\<lparr>ws_max_row := max (ws_max_row ws) r, ws_max_column := max (ws_max_column ws) c,
        ws_cell := (\<lambda>r' c'. if r' = r \<and> c' = c \<and> v \<noteq> CNone then v else ws_cell ws r' c')\<rparr>"

text \<open>The name of the data sheet, with e acute as code point 233.\<close>

definition sheet_donnees :: ustr where
  "sheet_donnees = u ''Donn'' @ [233] @ u ''es''"

text \<open>
  \<open>isinstance(v, (int, float))\<close> holds for bool, int and float values (NaN included);
  \<open>int(v)\<close> truncates a float and raises ValueError on NaN.
\<close>

definition is_number :: "cell \<Rightarrow> bool" where
  "is_number v = (case v of CBool b \<Rightarrow> True | CInt i \<Rightarrow> True | CFloat r \<Rightarrow> True | CNaN \<Rightarrow> True | _ \<Rightarrow> False)"

definition py_int :: "cell \<Rightarrow> py_error + int" where
  "py_int v =
     (case v of CBool b \<Rightarrow> Inr (if b then 1 else 0) | CInt i \<Rightarrow> Inr i | CFloat r \<Rightarrow> Inr (trunc_int r)
      | CNaN \<Rightarrow> Inl ValueError | _ \<Rightarrow> Inl TypeError)"

text \<open>
  \<open>float(v)\<close>; the result is \<open>None\<close> for NaN. Reading a text as a float is a parameter:
  \<open>None\<close> when Python raises ValueError.
\<close>

definition py_float :: "(ustr \<Rightarrow> real option option) \<Rightarrow> cell \<Rightarrow> py_error + real option" where
  "py_float float_of_str v =
     (case v of CBool b \<Rightarrow> Inr (Some (if b then 1 else 0)) | CInt i \<Rightarrow> Inr (Some (of_int i))
      | CFloat r \<Rightarrow> Inr (Some r) | CNaN \<Rightarrow> Inr None
      | CStr s \<Rightarrow> (case float_of_str s of None \<Rightarrow> Inl ValueError | Some x \<Rightarrow> Inr x)
      | _ \<Rightarrow> Inl TypeError)"

text \<open>A loop whose body may raise: the iterations in order, stopping at an exception.\<close>

fun for_each :: "('s \<Rightarrow> 'a \<Rightarrow> py_error + 's) \<Rightarrow> 's \<Rightarrow> 'a list \<Rightarrow> py_error + 's" where
  "for_each body st [] = Inr st"
| "for_each body st (x # xs) =
     (case body st x of Inl e \<Rightarrow> Inl e | Inr st' \<Rightarrow> for_each body st' xs)"

text \<open>
  The scan of the header row (row 3, from column 2): the numeric cells with their columns.
  \<open>ordered_codes\<close> are the codes in column order (lines 741-746), \<open>code_to_col\<close> the dict
  from code to column in which a later column replaces an earlier one (lines 756-760).
\<close>

definition header_scan :: "sheet \<Rightarrow> py_error + (int \<times> nat) list" where
  "header_scan ws =
     for_each (\<lambda>acc c. let v = ws_cell ws 3 c
                        in if is_number v
                           then (case py_int v of Inl e \<Rightarrow> Inl e | Inr code \<Rightarrow> Inr (acc @ [(code, c)]))
                           else Inr acc)
              [] [2..<ws_max_column ws + 1]"

definition code_to_col_of :: "(int \<times> nat) list \<Rightarrow> (int, nat) dict" where
  "code_to_col_of scanned = fold (\<lambda>(code, c) d. dict_set d code c) scanned []"

text \<open>
  The state of the consolidation: the dict from (timestamp, code) to value, and the set of
  timestamps as a list without repetition. A stored value of \<open>None\<close> is a NaN.
\<close>

record cons_state =
  cv_values :: "(timestamp \<times> int, real option) dict"
  cv_all_ts :: "timestamp list"

definition cons_init :: cons_state where
  "cons_init = \<lparr>cv_values = [], cv_all_ts = []\<rparr>"

text \<open>The body of the loop over the codes (lines 772-779).\<close>

definition code_step ::
  "(ustr \<Rightarrow> real option option) \<Rightarrow> sheet \<Rightarrow> nat \<Rightarrow> timestamp \<Rightarrow> (int, nat) dict
     \<Rightarrow> cons_state \<Rightarrow> int \<Rightarrow> py_error + cons_state" where
  "code_step float_of_str ws r ts code_to_col st code =
     (case dict_get code_to_col code of
        None \<Rightarrow> Inr st
      | Some col \<Rightarrow>
         (let val = ws_cell ws r col
          in if val = CNone \<or> val = CNaN then Inr st
             else (case py_float float_of_str val of
                     Inl e \<Rightarrow> Inl e
                   | Inr x \<Rightarrow> Inr (st\<lparr>cv_values := dict_set (cv_values st) (ts, code) x\<rparr>))))"

text \<open>
  The body of the loop over the rows (lines 762-779). \<open>to_datetime\<close> is
  \<open>pd.to_datetime(tval, errors="coerce")\<close>, \<open>None\<close> for NaT.
\<close>

definition row_step ::
  "(cell \<Rightarrow> timestamp option) \<Rightarrow> (ustr \<Rightarrow> real option option) \<Rightarrow> int list \<Rightarrow> (int, nat) dict \<Rightarrow> sheet
     \<Rightarrow> cons_state \<Rightarrow> nat \<Rightarrow> py_error + cons_state" where
  "row_step to_datetime float_of_str ordered_codes code_to_col ws st r =
     (let tval = ws_cell ws r 1
      in if tval = CNone \<or> tval = CStr [] then Inr st
         else (case to_datetime tval of
                 None \<Rightarrow> Inr st
               | Some ts \<Rightarrow>
                  for_each (code_step float_of_str ws r ts code_to_col)
                           (st\<lparr>cv_all_ts := List.insert ts (cv_all_ts st)\<rparr>) ordered_codes))"

text \<open>The body of the loop over the generated files (lines 750-779).\<close>

definition file_step ::
  "(cell \<Rightarrow> timestamp option) \<Rightarrow> (ustr \<Rightarrow> real option option) \<Rightarrow> int list
     \<Rightarrow> cons_state \<Rightarrow> workbook \<Rightarrow> py_error + cons_state" where
  "file_step to_datetime float_of_str ordered_codes st wb =
     (case dict_get wb sheet_donnees of
        None \<Rightarrow> Inr st
      | Some ws \<Rightarrow>
         (case header_scan ws of
            Inl e \<Rightarrow> Inl e
          | Inr scanned \<Rightarrow>
             for_each (row_step to_datetime float_of_str ordered_codes (code_to_col_of scanned) ws)
                      st [4..<ws_max_row ws + 1]))"

text \<open>The value written for a looked-up entry: an absent entry leaves the cell empty.\<close>

definition cell_of_value :: "real option option \<Rightarrow> cell" where
  "cell_of_value v = (case v of None \<Rightarrow> CNone | Some None \<Rightarrow> CNaN | Some (Some x) \<Rightarrow> CFloat x)"

text \<open>
  The writing of the consolidated sheet (lines 781-801): the loop over the data region that
  passes \<open>value=None\<close>, the header, then one row per timestamp. \<open>strftime\<close> formats the
  timestamp.
\<close>

definition clear_region :: "sheet \<Rightarrow> nat \<Rightarrow> nat \<Rightarrow> sheet" where
  "clear_region ws start_row max_col =
     fold (\<lambda>r ws1. fold (\<lambda>c ws2. set_cell ws2 r c CNone) [1..<max_col + 1] ws1)
          [start_row..<ws_max_row ws + 1] ws"

definition write_header :: "sheet \<Rightarrow> int list \<Rightarrow> sheet" where
  "write_header ws codes =
     fold (\<lambda>(i, code) ws1. set_cell ws1 3 i (CInt code))
          (zip [2..<length codes + 2] codes)
          (set_cell ws 3 1 (CStr (u ''timestamp'')))"

definition write_rows ::
  "(timestamp \<Rightarrow> ustr) \<Rightarrow> (timestamp \<times> int, real option) dict \<Rightarrow> int list \<Rightarrow> timestamp list
     \<Rightarrow> sheet \<Rightarrow> sheet" where
  "write_rows strftime vals codes sorted_ts ws =
     fold (\<lambda>(row, ts) ws1.
             fold (\<lambda>(i, code) ws2. set_cell ws2 row i (cell_of_value (dict_get vals (ts, code))))
                  (zip [2..<length codes + 2] codes)
                  (set_cell ws1 row 1 (CStr (strftime ts))))
          (zip [4..<length sorted_ts + 4] sorted_ts) ws"

text \<open>
  The consolidated result: the written sheet, together with the codes, the sorted
  timestamps and the dict of values it was written from.
\<close>

record consolidated =
  cs_sheet :: sheet
  cs_codes :: "int list"
  cs_index :: "timestamp list"
  cs_values :: "(timestamp \<times> int, real option) dict"

definition consolidate_outputs ::
  "(cell \<Rightarrow> timestamp option) \<Rightarrow> (ustr \<Rightarrow> real option option) \<Rightarrow> (timestamp \<Rightarrow> ustr)
     \<Rightarrow> workbook \<Rightarrow> workbook list \<Rightarrow> py_error + consolidated" where
  "consolidate_outputs to_datetime float_of_str strftime wb_tpl generated_files =
     (case dict_item wb_tpl sheet_donnees of
        Inl e \<Rightarrow> Inl e
      | Inr ws_tpl \<Rightarrow>
         (case header_scan ws_tpl of
            Inl e \<Rightarrow> Inl e
          | Inr scanned \<Rightarrow>
             (let ordered_codes = map fst scanned
              in case for_each (file_step to_datetime float_of_str ordered_codes) cons_init generated_files of
                   Inl e \<Rightarrow> Inl e
                 | Inr st \<Rightarrow>
                    (let sorted_ts = sort (cv_all_ts st);
                         max_col = length ordered_codes + 1;
                         ws1 = clear_region ws_tpl 4 max_col;
                         ws2 = write_header ws1 ordered_codes;
                         ws3 = write_rows strftime (cv_values st) ordered_codes sorted_ts ws2
                     in Inr \<lparr>cs_sheet = ws3, cs_codes = ordered_codes, cs_index = sorted_ts,
                             cs_values = cv_values st\<rparr>))))"

text \<open>The cell of the consolidated matrix at a timestamp and a code.\<close>

definition cs_lookup :: "consolidated \<Rightarrow> timestamp \<Rightarrow> int \<Rightarrow> real option option" where
  "cs_lookup m ts code = dict_get (cs_values m) (ts, code)"

text \<open>A sheet given by its rows, for examples.\<close>

definition sheet_of_rows :: "cell list list \<Rightarrow> sheet" where
  "sheet_of_rows rows =
     \<lparr>ws_max_row = length rows,
      ws_max_column = fold max (map length rows) 0,
      ws_cell = (\<lambda>r c. if 1 \<le> r \<and> r \<le> length rows \<and> 1 \<le> c \<and> c \<le> length (rows ! (r - 1))
                        then rows ! (r - 1) ! (c - 1) else CNone)\<rparr>"

definition ex_template :: workbook where
  "ex_template = [(sheet_donnees,
      sheet_of_rows [[CStr (u ''title'')], [], [CStr (u ''timestamp''), CInt 1, CInt 2]])]"

definition ex_output_a :: workbook where
  "ex_output_a = [(sheet_donnees,
      sheet_of_rows [[], [], [CStr (u ''timestamp''), CInt 1, CInt 2, CInt 9],
                     [CTime 3600, CFloat 10, CNone, CStr (u ''n/a'')]])]"


definition ex_output_nosheet :: workbook where
  "ex_output_nosheet = [(u ''Stations'', sheet_of_rows [[CStr (u ''code'')]])]"

definition ex_strftime :: "timestamp \<Rightarrow> ustr" where
  "ex_strftime t = (if t = 0 then u ''1970-01-01T00:00:00'' else if t = 3600 then u ''1970-01-01T01:00:00'' else u ''later'')"

definition ex_float_of_str :: "ustr \<Rightarrow> real option option" where
  "ex_float_of_str s = map_option (\<lambda>n. Some (of_nat n)) (ex_digits s)"



text \<open>
  What one output workbook contributes on its own: the state after processing it from the
  empty state. \<open>later_wins\<close> picks, from the contributions in processing order, the last
  one that is present.
\<close>

definition file_contrib ::
  "(cell \<Rightarrow> timestamp option) \<Rightarrow> (ustr \<Rightarrow> real option option) \<Rightarrow> int list \<Rightarrow> workbook
     \<Rightarrow> py_error + cons_state" where
  "file_contrib to_datetime float_of_str codes wb = file_step to_datetime float_of_str codes cons_init wb"

definition file_value ::
  "(cell \<Rightarrow> timestamp option) \<Rightarrow> (ustr \<Rightarrow> real option option) \<Rightarrow> int list \<Rightarrow> workbook
     \<Rightarrow> timestamp \<times> int \<Rightarrow> real option option" where
  "file_value to_datetime float_of_str codes wb k =
     (case file_contrib to_datetime float_of_str codes wb of
        Inl e \<Rightarrow> None | Inr c \<Rightarrow> dict_get (cv_values c) k)"



text \<open>The numeric codes of the template's header row, in template order (lines 739-746).\<close>

definition template_codes :: "workbook \<Rightarrow> py_error + int list" where
  "template_codes wb_tpl =
     (case dict_item wb_tpl sheet_donnees of
        Inl e \<Rightarrow> Inl e
      | Inr ws \<Rightarrow> (case header_scan ws of Inl e \<Rightarrow> Inl e | Inr scanned \<Rightarrow> Inr (map fst scanned)))"

text \<open>Every key of the dict has a code of the given list and a timestamp of the state.\<close>

definition keys_within :: "int list \<Rightarrow> cons_state \<Rightarrow> bool" where
  "keys_within codes st \<longleftrightarrow>
     (\<forall>ts code v. map_of (cv_values st) (ts, code) = Some v \<longrightarrow>
                    code \<in> set codes \<and> ts \<in> set (cv_all_ts st))"

section \<open>The aggregation option, from the interface to the scripts\<close>

text \<open>
  The aggregation box of a resampling tab of hydro_sentinel_ui.py (lines 171-176): the same
  six values for the flow and the volume workflow.
\<close>

definition agg_combobox_values :: "ustr list" where
  "agg_combobox_values = [u ''mean'', u ''last'', u ''min'', u ''max'', u ''median'', u ''sum'']"

text \<open>
  The resampling options that \<open>_build_cmd\<close> appends to the command line of a workflow with
  \<open>supports_resample\<close> (lines 527-530): the stripped text of each box, or its default.
\<close>

definition build_cmd_resample :: "unicode_db \<Rightarrow> ustr \<Rightarrow> ustr \<Rightarrow> ustr list" where
  "build_cmd_resample db resample_var agg_var =
     (let rs = (if str_strip db resample_var = [] then u ''1h'' else str_strip db resample_var);
          agg = (if str_strip db agg_var = [] then u ''mean'' else str_strip db agg_var)
      in [u ''--resample-rule'', rs, u ''--agg'', agg])"

text \<open>
  argparse reading the value of a named option from the command line: the argument that
  follows the option, or the default when the option is absent.
\<close>

fun argparse_value :: "ustr \<Rightarrow> ustr \<Rightarrow> ustr list \<Rightarrow> ustr" where
  "argparse_value opt dflt [] = dflt"
| "argparse_value opt dflt [x] = dflt"
| "argparse_value opt dflt (x # y # rest) =
     (if x = opt then y else argparse_value opt dflt (y # rest))"

text \<open>\<open>--agg\<close> as the two scripts read it in \<open>parse_args\<close>, the default being \<open>mean\<close>.\<close>

definition flow_parse_args_agg :: "ustr list \<Rightarrow> py_error + ustr" where
  "flow_parse_args_agg argv = parse_agg flow_agg_choices (argparse_value (u ''--agg'') (u ''mean'') argv)"

definition volume_parse_args_agg :: "ustr list \<Rightarrow> py_error + ustr" where
  "volume_parse_args_agg argv = parse_agg volume_agg_choices (argparse_value (u ''--agg'') (u ''mean'') argv)"

section \<open>Texts that differ in letter case or in diacritics\<close>

text \<open>
  Two code points that differ at most in letter case: they are equal, or they have the same
  lower-case mapping and agree on the Cased, Case_Ignorable and white-space properties, and
  neither is the capital sigma (whose lower case depends on its neighbours).
\<close>

definition same_letter_case :: "unicode_db \<Rightarrow> nat \<Rightarrow> nat \<Rightarrow> bool" where
  "same_letter_case db a b \<longleftrightarrow>
     a = b \<or>
     (a \<noteq> 931 \<and> b \<noteq> 931 \<and> ud_lower db a = ud_lower db b \<and> ud_cased db a = ud_cased db b \<and>
      ud_case_ignorable db a = ud_case_ignorable db b \<and> ud_space db a = ud_space db b)"

text \<open>
  The base letters of a code point: its lower case, decomposed, without the combining marks.
  Two code points that differ at most in letter case and diacritics have the same base letters.
\<close>

definition base_letters :: "unicode_db \<Rightarrow> nat \<Rightarrow> ustr" where
  "base_letters db c = drop_combining db (concat (map (ud_decomp db) (ud_lower db c)))"

definition same_base_letter :: "unicode_db \<Rightarrow> nat \<Rightarrow> nat \<Rightarrow> bool" where
  "same_base_letter db a b \<longleftrightarrow>
     a = b \<or>
     (a \<noteq> 931 \<and> b \<noteq> 931 \<and> base_letters db a = base_letters db b \<and> ud_cased db a = ud_cased db b \<and>
      ud_case_ignorable db a = ud_case_ignorable db b \<and> ud_space db a = ud_space db b)"

text \<open>Labels that differ in letter case, and labels that differ in case and accents.\<close>

definition ex_label_upper :: ustr where
  "ex_label_upper = u ''D'' @ [201] @ u ''BIT Aval''"

definition ex_label_lower :: ustr where
  "ex_label_lower = u ''d'' @ [233] @ u ''bit aval''"

definition ex_label_accents :: ustr where
  "ex_label_accents = [201] @ u ''t'' @ [233] @ u '' 2024''"

definition ex_label_plain :: ustr where
  "ex_label_plain = u ''ete 2024''"

section \<open>Format adapters (parse_html_xls and parse_csv of prepare_flow_observed.py)\<close>

text \<open>A pandas frame of texts: the column labels and the rows; a missing value is \<open>None\<close>.\<close>

record str_frame =
  sf_columns :: "ustr list"
  sf_rows :: "ustr option list list"

text \<open>
  \<open>parse_html_xls\<close> of prepare_flow_observed.py (lines 145-163); prepare_volume_observed.py
  has the same function (lines 110-123). The scan of the file by the regular expressions is a
  parameter: for each \<open><tr>\<close> element, in order, the cleaned texts of its cells.
\<close>

definition parse_html_xls :: "('f \<Rightarrow> ustr list list) \<Rightarrow> 'f \<Rightarrow> py_error + str_frame" where
  "parse_html_xls scan_table path =
     (let rows = filter (\<lambda>cleaned. cleaned \<noteq> []) (scan_table path)
      in if length rows < 2 then Inl ValueError
         else (let header = hd rows;
                   data = tl rows;
                   width = length header;
                   data = filter (\<lambda>r. length r = width) data
               in Inr \<lparr>sf_columns = header, sf_rows = map (map Some) data\<rparr>))"

text \<open>
  \<open>parse_html_xls_to_df\<close> of hydro_sentinel_ui.py (lines 91-103): the same scan, with an
  empty frame where the scripts raise.
\<close>

definition parse_html_xls_to_df :: "('f \<Rightarrow> ustr list list) \<Rightarrow> 'f \<Rightarrow> str_frame" where
  "parse_html_xls_to_df scan_table path =
     (let rows = filter (\<lambda>vals. vals \<noteq> []) (scan_table path)
      in if length rows < 2 then \<lparr>sf_columns = [], sf_rows = []\<rparr>
         else (let header = hd rows;
                   width = length header;
                   data = filter (\<lambda>r. length r = width) (tl rows)
               in \<lparr>sf_columns = header, sf_rows = map (map Some) data\<rparr>))"

text \<open>
  \<open>text.splitlines()[0]\<close>: the text up to its first line boundary; the index raises
  IndexError on the empty text, which has no line.
\<close>

definition line_boundary :: "nat \<Rightarrow> bool" where
  "line_boundary c \<longleftrightarrow> c \<in> {10, 11, 12, 13, 28, 29, 30, 133, 8232, 8233}"

definition first_line :: "ustr \<Rightarrow> py_error + ustr" where
  "first_line text = (if text = [] then Inl IndexError else Inr (takeWhile (\<lambda>c. \<not> line_boundary c) text))"

text \<open>Line 207: the separator is the semicolon unless the first line has more commas.\<close>

definition csv_sep :: "ustr \<Rightarrow> ustr" where
  "csv_sep line = (if count_list line 59 \<ge> count_list line 44 then u '';'' else u '','')"

text \<open>
  \<open>raw.melt(id_vars=[time_col], value_vars=station_cols, var_name="source_col",
  value_name="value")\<close> with the time column renamed: for each station column in order, one
  row per row of the frame. A missing text is NaN.
\<close>

definition cell_of_text :: "ustr option \<Rightarrow> cell" where
  "cell_of_text t = (case t of None \<Rightarrow> CNaN | Some s \<Rightarrow> CStr s)"

definition frame_value :: "ustr option list \<Rightarrow> nat \<Rightarrow> ustr option" where
  "frame_value row j = (if j < length row then row ! j else None)"

definition melt :: "str_frame \<Rightarrow> source_row list" where
  "melt raw =
     concat (map (\<lambda>j. map (\<lambda>row. \<lparr>sr_time = cell_of_text (frame_value row 0),
                                     sr_source_col = sf_columns raw ! j,
                                     sr_value = cell_of_text (frame_value row j)\<rparr>)
                            (sf_rows raw))
                 [1..<length (sf_columns raw)])"

text \<open>
  \<open>parse_csv\<close> (lines 205-215). Reading the file as text and \<open>pd.read_csv(path, sep=sep,
  dtype=str)\<close> are parameters; pandas may raise on a file it cannot parse.
\<close>

definition parse_csv ::
  "('f \<Rightarrow> ustr) \<Rightarrow> (ustr \<Rightarrow> 'f \<Rightarrow> py_error + str_frame) \<Rightarrow> 'f \<Rightarrow> py_error + source_row list" where
  "parse_csv read_text read_csv path =
     (case first_line (read_text path) of
        Inl e \<Rightarrow> Inl e
      | Inr line \<Rightarrow>
         (case read_csv (csv_sep line) path of
            Inl e \<Rightarrow> Inl e
          | Inr raw \<Rightarrow>
             if length (sf_columns raw) < 2 then Inl ValueError else Inr (melt raw)))"

text \<open>
  \<open>main\<close> on a .csv input, lines 519-523: an exception of the adapter propagates; a frame
  without rows ends the run with exit status 1.
\<close>

definition flow_read_csv_input ::
  "('f \<Rightarrow> ustr) \<Rightarrow> (ustr \<Rightarrow> 'f \<Rightarrow> py_error + str_frame) \<Rightarrow> 'f \<Rightarrow> py_error + source_row list" where
  "flow_read_csv_input read_text read_csv path =
     (case parse_csv read_text read_csv path of
        Inl e \<Rightarrow> Inl e
      | Inr raw_df \<Rightarrow> if raw_df = [] then Inl (SystemExit 1) else Inr raw_df)"

text \<open>Example files: tables as scanned, and CSV files with the frame pandas reads from them.\<close>

datatype ex_file = HeaderOnlyTable | OneColumnTable | SmallTable | HeaderOnlyCsv | OneColumnCsv | SmallCsv

definition ex_scan_table :: "ex_file \<Rightarrow> ustr list list" where
  "ex_scan_table f =
     (case f of
        HeaderOnlyTable \<Rightarrow> [[u ''Date'', u ''A'']]
      | OneColumnTable \<Rightarrow> [[u ''Date''], [], [u ''01/01/2024 00:00'']]
      | SmallTable \<Rightarrow> [[u ''Date'', u ''A''], [u ''01/01/2024 00:00'', u ''1,5''], [u ''total'']]
      | _ \<Rightarrow> [])"

definition ex_read_text :: "ex_file \<Rightarrow> ustr" where
  "ex_read_text f =
     (case f of
        HeaderOnlyCsv \<Rightarrow> u ''Date;A'' @ [10]
      | OneColumnCsv \<Rightarrow> u ''Date'' @ [10] @ u ''01/01/2024'' @ [10]
      | SmallCsv \<Rightarrow> u ''Date;A'' @ [10] @ u ''01/01/2024;1,5'' @ [10]
      | _ \<Rightarrow> [])"

definition ex_read_csv :: "ustr \<Rightarrow> ex_file \<Rightarrow> py_error + str_frame" where
  "ex_read_csv sep f =
     (if sep \<noteq> u '';'' then Inl ValueError
      else (case f of
              HeaderOnlyCsv \<Rightarrow> Inr \<lparr>sf_columns = [u ''Date'', u ''A''], sf_rows = []\<rparr>
            | OneColumnCsv \<Rightarrow> Inr \<lparr>sf_columns = [u ''Date''], sf_rows = [[Some (u ''01/01/2024'')]]\<rparr>
            | SmallCsv \<Rightarrow> Inr \<lparr>sf_columns = [u ''Date'', u ''A''],
                                sf_rows = [[Some (u ''01/01/2024''), Some (u ''1,5'')]]\<rparr>
            | _ \<Rightarrow> Inl ValueError))"

section \<open>The end of a run: outputs and strict mode (main of the four scripts)\<close>











section \<open>Deduplication: helper lemmas\<close>

lemma length_duplicated_last [simp]: "length (duplicated_last ks) = length ks"
  by (induction ks) auto

lemma loc_not_Cons:
  "loc_not (d # msk) (r # rs) = (if d then loc_not msk rs else r # loc_not msk rs)"
  by (simp add: loc_not_def)

lemma loc_not_Nil [simp]: "loc_not msk [] = []"
  by (simp add: loc_not_def)

lemma loc_not_duplicated_last_Cons:
  "loc_not (duplicated_last (map key (r # rs))) (r # rs) =
     (if key r \<in> key ` set rs then loc_not (duplicated_last (map key rs)) rs
      else r # loc_not (duplicated_last (map key rs)) rs)"
  by (simp add: loc_not_Cons)

lemma mask_sum_Cons: "mask_sum (d # msk) = (if d then Suc (mask_sum msk) else mask_sum msk)"
  by (simp add: mask_sum_def)

lemma mask_sum_zero_loc_not:
  "length msk = length rs \<Longrightarrow> mask_sum msk = 0 \<Longrightarrow> loc_not msk rs = rs"
proof (induction rs arbitrary: msk)
  case Nil
  then show ?case by simp
next
  case (Cons r rs)
  then obtain d m where m: "msk = d # m" by (cases msk) auto
  with Cons.prems have "\<not> d" "mask_sum m = 0" "length m = length rs"
    by (auto simp: mask_sum_Cons split: if_splits)
  with Cons.IH m show ?case by (simp add: loc_not_Cons)
qed

lemma fst_drop_duplicates:
  "fst (drop_duplicates_keep_last key rs) = loc_not (duplicated_last (map key rs)) rs"
  by (simp add: drop_duplicates_keep_last_def Let_def mask_sum_zero_loc_not)

lemma set_loc_not_keys:
  "key ` set (loc_not (duplicated_last (map key rs)) rs) = key ` set rs"
proof (induction rs)
  case Nil
  then show ?case by simp
next
  case (Cons r rs)
  show ?case
    unfolding loc_not_duplicated_last_Cons using Cons.IH by auto
qed

lemma distinct_loc_not_keys:
  "distinct (map key (loc_not (duplicated_last (map key rs)) rs))"
proof (induction rs)
  case Nil
  then show ?case by simp
next
  case (Cons r rs)
  have "key r \<notin> key ` set rs \<Longrightarrow>
        key r \<notin> key ` set (loc_not (duplicated_last (map key rs)) rs)"
    by (simp add: set_loc_not_keys)
  with Cons.IH show ?case
    unfolding loc_not_duplicated_last_Cons by auto
qed

lemma filter_loc_not_last:
  "k \<in> key ` set rs \<Longrightarrow>
   filter (\<lambda>r. key r = k) (loc_not (duplicated_last (map key rs)) rs)
     = [last (filter (\<lambda>r. key r = k) rs)]"
proof (induction rs)
  case Nil
  then show ?case by simp
next
  case (Cons r rs)
  let ?kept = "loc_not (duplicated_last (map key rs)) rs"
  show ?case
  proof (cases "k \<in> key ` set rs")
    case True
    then have ne: "filter (\<lambda>r. key r = k) rs \<noteq> []"
      by (auto simp: filter_empty_conv)
    from True Cons.IH have ih: "filter (\<lambda>r. key r = k) ?kept = [last (filter (\<lambda>r. key r = k) rs)]"
      by simp
    show ?thesis
      unfolding loc_not_duplicated_last_Cons using True ih ne by auto
  next
    case False
    with Cons.prems have kr: "key r = k" by auto
    from False have e1: "filter (\<lambda>r. key r = k) rs = []"
      by (auto simp: filter_empty_conv)
    from False have "k \<notin> key ` set ?kept" by (simp add: set_loc_not_keys)
    then have e2: "filter (\<lambda>r. key r = k) ?kept = []"
      by (auto simp: filter_empty_conv)
    show ?thesis
      unfolding loc_not_duplicated_last_Cons using False kr e1 e2 by auto
  qed
qed

lemma length_loc_not_mask_sum:
  "length msk = length rs \<Longrightarrow> length (loc_not msk rs) + mask_sum msk = length rs"
proof (induction rs arbitrary: msk)
  case Nil
  then show ?case by (simp add: mask_sum_def)
next
  case (Cons r rs)
  then obtain d m where m: "msk = d # m" by (cases msk) auto
  with Cons.prems have "length m = length rs" by simp
  from Cons.IH[OF this] m show ?case
    by (simp add: loc_not_Cons mask_sum_Cons)
qed

lemma subseq_loc_not: "subseq (loc_not msk rs) rs"
proof (induction rs arbitrary: msk)
  case Nil
  then show ?case by simp
next
  case (Cons r rs)
  show ?case
  proof (cases msk)
    case Nil
    then show ?thesis by (simp add: loc_not_def)
  next
    case (Cons d m)
    with Cons.IH[of m] show ?thesis by (auto simp: loc_not_Cons)
  qed
qed

lemma snd_drop_duplicates:
  "snd (drop_duplicates_keep_last key rs) = length rs - length (fst (drop_duplicates_keep_last key rs))"
  using length_loc_not_mask_sum[of "duplicated_last (map key rs)" rs]
  by (simp add: fst_drop_duplicates) (simp add: drop_duplicates_keep_last_def Let_def)

lemma dedup_sorted_props:
  fixes key :: "'r \<Rightarrow> 'k::linorder"
  shows "distinct (map key (sort_key key (fst (drop_duplicates_keep_last key rs))))"
    and "k \<in> key ` set rs \<Longrightarrow>
         filter (\<lambda>r. key r = k) (sort_key key (fst (drop_duplicates_keep_last key rs)))
           = [last (filter (\<lambda>r. key r = k) rs)]"
    and "set (sort_key key (fst (drop_duplicates_keep_last key rs))) \<subseteq> set rs"
    and "length (sort_key key (fst (drop_duplicates_keep_last key rs)))
           + snd (drop_duplicates_keep_last key rs) = length rs"
proof -
  let ?kept = "loc_not (duplicated_last (map key rs)) rs"
  have c: "fst (drop_duplicates_keep_last key rs) = ?kept" by (simp add: fst_drop_duplicates)
  show "distinct (map key (sort_key key (fst (drop_duplicates_keep_last key rs))))"
    unfolding c using distinct_loc_not_keys[of key rs]
    by (simp add: distinct_map)
  show "filter (\<lambda>r. key r = k) (sort_key key (fst (drop_duplicates_keep_last key rs)))
           = [last (filter (\<lambda>r. key r = k) rs)]" if "k \<in> key ` set rs"
    unfolding c using filter_loc_not_last[OF that] by (simp add: filter_sort)
  show "set (sort_key key (fst (drop_duplicates_keep_last key rs))) \<subseteq> set rs"
    unfolding c by (auto simp: loc_not_def dest: set_zip_leftD)
  show "length (sort_key key (fst (drop_duplicates_keep_last key rs)))
           + snd (drop_duplicates_keep_last key rs) = length rs"
    unfolding c using length_loc_not_mask_sum[of "duplicated_last (map key rs)" rs]
    by (simp add: drop_duplicates_keep_last_def Let_def)
qed









section \<open>Matrix builder: columns and statistics\<close>

lemma target_codes_of_sorted_union:
  "target_codes_of s d = sorted_list_of_set (set s \<union> set d)"
  by (simp add: target_codes_of_def sorted_list_of_set_sort_remdups[symmetric] del: sorted_list_of_set_sort_remdups)

lemma build_station_order_eq:
  "fst (build_station_order e s i) = e @ sorted_list_of_set ((set s \<union> set i) - set e)"
proof -
  have "set (filter (\<lambda>c. c \<notin> set e) (s @ i)) = (set s \<union> set i) - set e" by auto
  then have "sort (remdups (filter (\<lambda>c. c \<notin> set e) (s @ i))) = sorted_list_of_set ((set s \<union> set i) - set e)"
    by (metis sorted_list_of_set_sort_remdups)
  then show ?thesis by (simp add: build_station_order_def Let_def)
qed

lemma reindex_row_length:
  "r \<in> set (reindex_columns df tc) \<Longrightarrow> length r = length tc"
  by (auto simp: reindex_columns_def)

lemma fillna_row_length:
  "r \<in> set (fillna f rows) \<Longrightarrow> \<exists>r0 \<in> set rows. length r = length r0"
  by (auto simp: fillna_def)

lemma model_matrix_columns:
  "mx_columns (fst (model_matrix e s clean fill))
     = e @ sorted_list_of_set ((set s \<union> cr_station_id ` set clean) - set e)"
proof -
  have "fst (build_station_order e (sort s) (sort (remdups (map cr_station_id clean))))
        = e @ sorted_list_of_set ((set s \<union> cr_station_id ` set clean) - set e)"
    by (simp add: build_station_order_eq)
  then show ?thesis
    by (cases "build_station_order e (sort s) (sort (remdups (map cr_station_id clean)))")
       (simp add: model_matrix_def dataframe_to_matrix_def Let_def)
qed

text \<open>
  Claim C1, as amended. The station columns of the matrix of the three observed workflows
  (flow, volume, observed precipitation) are the ascending sorted union of the stations-sheet
  codes and the data-sheet header codes, whatever the input frame is. The
  precipitation-model workflow keeps the header codes of the template data sheet in their
  template order and appends, in ascending order, the codes of the stations sheet and of the
  input that the header lacks.
\<close>

theorem C1_matrix_columns:
  "mx_columns (fst (build_matrix_flow df (target_codes_of sheet_codes data_codes) fill))
      = sorted_list_of_set (set sheet_codes \<union> set data_codes) \<and>
   mx_columns (fst (build_matrix_volume df (target_codes_of sheet_codes data_codes) fill))
      = sorted_list_of_set (set sheet_codes \<union> set data_codes) \<and>
   mx_columns (fst (build_matrix_obs df (target_codes_of sheet_codes data_codes) fill))
      = sorted_list_of_set (set sheet_codes \<union> set data_codes) \<and>
   mx_columns (fst (model_matrix existing_order sheet_codes clean fill))
      = existing_order @
        sorted_list_of_set ((set sheet_codes \<union> cr_station_id ` set clean) - set existing_order)"
  by (simp add: build_matrix_flow_def build_matrix_volume_def build_matrix_obs_def Let_def
        target_codes_of_sorted_union model_matrix_columns)

text \<open>
  The claim as stated fails for the precipitation-model workflow: with the template header
  2, 1 the columns stay 2, 1, which is not the sorted list 1, 2.
\<close>

theorem C1_precip_model_counterexample:
  "mx_columns (fst (model_matrix [2, 1] [1, 2] ex_clean_rows (Some 0))) = [2, 1] \<and>
   target_codes_of [1, 2] [2, 1] = [1, 2] \<and>
   mx_columns (fst (model_matrix [2, 1] [1, 2] ex_clean_rows (Some 0))) \<noteq> target_codes_of [1, 2] [2, 1]"
  by code_simp

lemma fillna_None [simp]: "fillna None rows = rows"
  by (simp add: fillna_def option.case_eq_if map_idI)

lemma fillna_no_missing: "isna_sum rows = 0 \<Longrightarrow> fillna f rows = rows"
proof -
  assume "isna_sum rows = 0"
  then have "\<forall>r \<in> set rows. \<forall>v \<in> set r. v \<noteq> None"
    by (auto simp: isna_sum_def filter_empty_conv)
  then have nn: "\<forall>r \<in> set rows. \<forall>v \<in> set r. v \<noteq> None" .
  have "map (case_option f Some) r = r" if "r \<in> set rows" for r
  proof (rule map_idI)
    fix v assume "v \<in> set r"
    with nn that have "v \<noteq> None" by blast
    then show "case_option f Some v = v" by (cases v) auto
  qed
  then show ?thesis
    by (simp add: fillna_def map_idI)
qed

lemma summary_obs_eq:
  "\<lparr>sm_min = (if length vs \<noteq> 0 then Some (Min (set vs)) else None),
    sm_max = (if length vs \<noteq> 0 then Some (Max (set vs)) else None),
    sm_mean = (if length vs \<noteq> 0 then Some (mean vs) else None),
    sm_p95 = (if length vs \<noteq> 0 then Some (quantile (95 / 100) vs) else None),
    sm_p99 = (if length vs \<noteq> 0 then Some (quantile (99 / 100) vs) else None)\<rparr> = summary_of vs"
  by (simp add: summary_of_def)

lemma mx_rows_flow:
  "mx_rows (fst (build_matrix_flow df tc fill)) = fillna fill (reindex_columns df tc)"
  by (cases fill) (simp_all add: build_matrix_flow_def Let_def)

lemma mx_rows_volume:
  "mx_rows (fst (build_matrix_volume df tc fill)) = fillna fill (reindex_columns df tc)"
  by (cases fill) (simp_all add: build_matrix_volume_def Let_def)

lemma mx_rows_obs:
  "mx_rows (fst (build_matrix_obs df tc fill)) = fillna fill (reindex_columns df tc)"
  by (cases fill) (simp_all add: build_matrix_obs_def Let_def)

lemma mx_rows_model:
  "mx_rows (fst (dataframe_to_matrix df tc fill)) = fillna fill (reindex_columns df tc)"
  by (simp add: dataframe_to_matrix_def Let_def)

lemma summary_flow:
  "ms_summary (snd (build_matrix_flow df tc fill)) = summary_of (dropna (concat (fillna fill (reindex_columns df tc))))"
  by (cases fill) (simp_all add: build_matrix_flow_def Let_def)

lemma summary_volume:
  "ms_summary (snd (build_matrix_volume df tc fill)) = summary_of (dropna (concat (fillna fill (reindex_columns df tc))))"
  by (cases fill) (simp_all add: build_matrix_volume_def Let_def)

lemma summary_obs:
  "ms_summary (snd (build_matrix_obs df tc fill)) = summary_of (dropna (concat (fillna fill (reindex_columns df tc))))"
  by (cases fill) (simp_all add: build_matrix_obs_def Let_def summary_of_def)

lemma summary_model:
  "mm_summary (snd (dataframe_to_matrix df tc fill)) = summary_of (dropna (concat (fillna fill (reindex_columns df tc))))"
  by (simp add: dataframe_to_matrix_def Let_def)

lemma after_fill_valid:
  "fill = None \<or> isna_sum (reindex_columns df tc) = 0 \<Longrightarrow> stats_after_fill df tc fill = stats_valid_only df tc"
  by (auto simp: stats_after_fill_def stats_valid_only_def fillna_no_missing)

text \<open>
  Claim C5, as amended. In each of the four matrix builders the recorded summary statistics
  are computed over the cells of the matrix after the fill value has been substituted (the
  non-null cells of the filled matrix); only the count of missing cells is taken before the
  substitution. The statistics equal those of the valid input cells when the policy leaves
  nulls or when no cell is missing.
\<close>

theorem C5_stats_after_fill:
  "ms_summary (snd (build_matrix_flow df tc fill)) = stats_after_fill df tc fill \<and>
   ms_summary (snd (build_matrix_volume df tc fill)) = stats_after_fill df tc fill \<and>
   ms_summary (snd (build_matrix_obs df tc fill)) = stats_after_fill df tc fill \<and>
   mm_summary (snd (dataframe_to_matrix df tc fill)) = stats_after_fill df tc fill \<and>
   ms_pre_fill_missing_cells (snd (build_matrix_flow df tc fill)) = isna_sum (reindex_columns df tc) \<and>
   ms_pre_fill_missing_cells (snd (build_matrix_volume df tc fill)) = isna_sum (reindex_columns df tc) \<and>
   ms_pre_fill_missing_cells (snd (build_matrix_obs df tc fill)) = isna_sum (reindex_columns df tc) \<and>
   mm_pre_fill_missing_cells (snd (dataframe_to_matrix df tc fill)) = isna_sum (reindex_columns df tc) \<and>
   (fill = None \<or> isna_sum (reindex_columns df tc) = 0
      \<longrightarrow> stats_after_fill df tc fill = stats_valid_only df tc)"
proof -
  have a: "ms_pre_fill_missing_cells (snd (build_matrix_flow df tc fill)) = isna_sum (reindex_columns df tc)"
    by (simp add: build_matrix_flow_def Let_def)
  have b: "ms_pre_fill_missing_cells (snd (build_matrix_volume df tc fill)) = isna_sum (reindex_columns df tc)"
    by (simp add: build_matrix_volume_def Let_def)
  have c: "ms_pre_fill_missing_cells (snd (build_matrix_obs df tc fill)) = isna_sum (reindex_columns df tc)"
    by (simp add: build_matrix_obs_def Let_def)
  have d: "mm_pre_fill_missing_cells (snd (dataframe_to_matrix df tc fill)) = isna_sum (reindex_columns df tc)"
    by (simp add: dataframe_to_matrix_def Let_def)
  show ?thesis
    using a b c d after_fill_valid[of fill df tc]
    by (simp add: summary_flow summary_volume summary_obs summary_model stats_after_fill_def)
qed

lemma ex_after: "sm_min (stats_after_fill ex_long_frame [1, 2] (Some 0)) = Some 0"
  by code_simp
lemma ex_valid: "sm_min (stats_valid_only ex_long_frame [1, 2]) = Some 5"
  by code_simp

text \<open>
  The claim as stated fails: with one valid cell 5 and one missing cell, the fill value 0
  becomes the recorded minimum, while the minimum of the valid cells is 5.
\<close>

theorem C5_fill_changes_stats_counterexample:
  "sm_min (ms_summary (snd (build_matrix_flow ex_long_frame [1, 2] (Some 0)))) = Some 0 \<and>
   sm_min (ms_summary (snd (build_matrix_flow ex_long_frame [1, 2] None))) = Some 5 \<and>
   ms_summary (snd (build_matrix_flow ex_long_frame [1, 2] (Some 0))) \<noteq> stats_valid_only ex_long_frame [1, 2]"
proof -
  have a: "sm_min (ms_summary (snd (build_matrix_flow ex_long_frame [1, 2] (Some 0)))) = Some 0"
    by (simp add: summary_flow ex_after[unfolded stats_after_fill_def])
  have b: "sm_min (ms_summary (snd (build_matrix_flow ex_long_frame [1, 2] None))) = Some 5"
    by (simp add: summary_flow ex_valid[unfolded stats_valid_only_def])
  have c: "sm_min (stats_valid_only ex_long_frame [1, 2]) = Some 5" by (rule ex_valid)
  from a c have "ms_summary (snd (build_matrix_flow ex_long_frame [1, 2] (Some 0))) \<noteq> stats_valid_only ex_long_frame [1, 2]"
    by auto
  with a b show ?thesis by simp
qed

theorem C5_stats_after_fill_witness:
  "(None = (None :: real option) \<or> isna_sum (reindex_columns ex_long_frame [1, 2]) = 0) \<and>
   ms_summary (snd (build_matrix_flow ex_long_frame [1, 2] None)) = stats_valid_only ex_long_frame [1, 2] \<and>
   sm_min (stats_valid_only ex_long_frame [1, 2]) = Some 5"
  using C5_stats_after_fill[of ex_long_frame "[1, 2]" None] ex_valid by simp

section \<open>Resampling: aggregations\<close>

lemma distinct_mask_sum: "distinct ks \<Longrightarrow> mask_sum (duplicated_last ks) = 0"
  by (induction ks) (auto simp: mask_sum_Cons mask_sum_def)

lemma drop_duplicates_distinct:
  "distinct (map key rs) \<Longrightarrow> drop_duplicates_keep_last key rs = (rs, 0)"
  by (simp add: drop_duplicates_keep_last_def distinct_mask_sum)

lemma resample_series_bucket:
  "(b, v) \<in> set (resample_series w f series) \<Longrightarrow> v = f (bucket_values w series b)"
  by (auto simp: resample_series_def Let_def split: if_splits)

lemma resample_series_distinct:
  "0 < w \<Longrightarrow> distinct (map fst (resample_series w f series))"
  by (auto simp: resample_series_def Let_def distinct_map inj_on_def comp_def)

lemma sorted_hd_le: "sorted xs \<Longrightarrow> x \<in> set xs \<Longrightarrow> hd xs \<le> (x::int)"
  by (cases xs) auto

lemma sorted_le_last: "sorted xs \<Longrightarrow> x \<in> set xs \<Longrightarrow> (x::int) \<le> last xs"
  by (induction xs) auto

lemma sorted_bounds:
  fixes series :: "(int \<times> 'a) list"
  assumes "sorted (map fst series)" "(t, x) \<in> set series"
  shows "fst (hd series) \<le> t" and "t \<le> fst (last series)"
proof -
  from assms(2) have ne: "series \<noteq> []" by auto
  from assms(2) have tm: "t \<in> set (map fst series)" by force
  from ne have e: "hd (map fst series) = fst (hd series)" "last (map fst series) = fst (last series)"
    by (simp_all add: hd_map last_map)
  from sorted_hd_le[OF assms(1) tm] e show "fst (hd series) \<le> t" by simp
  from sorted_le_last[OF assms(1) tm] e show "t \<le> fst (last series)" by simp
qed

lemma bin_start_bounds:
  assumes w: "0 < w"
  shows "bin_start w origin t \<le> t \<and> t < bin_start w origin t + int w"
proof -
  have m: "0 \<le> (t - origin) mod int w" "(t - origin) mod int w < int w"
    using w by simp_all
  have e: "(t - origin) div int w * int w = (t - origin) - (t - origin) mod int w"
    by (simp add: minus_mod_eq_div_mult)
  show ?thesis unfolding bin_start_def e using m by linarith
qed

lemma resample_series_covers:
  assumes w: "0 < w" and srt: "sorted (map fst series)" and mem: "(t, x) \<in> set series"
  shows "\<exists>b. b \<le> t \<and> t < b + int w \<and> x \<in> set (bucket_values w series b) \<and>
             (b, f (bucket_values w series b)) \<in> set (resample_series w f series)"
proof -
  define t0 where "t0 = fst (hd series)"
  define tn where "tn = fst (last series)"
  define origin where "origin = (t0 div 86400) * 86400"
  define k0 where "k0 = (t0 - origin) div int w"
  define k where "k = (t - origin) div int w"
  define kn where "kn = (tn - origin) div int w"
  define b where "b = bin_start w origin t"
  from mem have ne: "series \<noteq> []" by auto
  from sorted_bounds[OF srt mem] have le: "t0 \<le> t" "t \<le> tn" by (simp_all add: t0_def tn_def)
  from w le have kk: "k0 \<le> k" "k \<le> kn"
    unfolding k0_def k_def kn_def by (simp_all add: zdiv_mono1)
  have fb: "bin_start w origin t0 = origin + k0 * int w" by (simp add: bin_start_def k0_def)
  have bb: "b = origin + k * int w" by (simp add: bin_start_def k_def b_def)
  have "(tn - (origin + k0 * int w)) div int w = kn - k0"
  proof -
    have e: "tn - (origin + k0 * int w) = (tn - origin) + (- k0) * int w" by (simp add: algebra_simps)
    have d: "((tn - origin) + (- k0) * int w) div int w = - k0 + (tn - origin) div int w"
      using w by (subst div_mult_self1) simp_all
    show ?thesis unfolding e d kn_def by simp
  qed
  then have nb: "nat ((tn - bin_start w origin t0) div int w) = nat (kn - k0)"
    by (simp only: fb)
  define i where "i = nat (k - k0)"
  from kk have i: "i < nat (kn - k0) + 1" "int i = k - k0" by (simp_all add: i_def)
  have bi: "b = bin_start w origin t0 + int i * int w"
    by (simp add: bb fb i algebra_simps)
  have rs0: "resample_series w f series =
      map (\<lambda>i. (bin_start w origin t0 + int i * int w,
                  f (bucket_values w series (bin_start w origin t0 + int i * int w))))
          [0..<nat ((tn - bin_start w origin t0) div int w) + 1]"
    using ne by (simp add: resample_series_def Let_def t0_def tn_def origin_def)
  have rs: "resample_series w f series =
      map (\<lambda>i. (bin_start w origin t0 + int i * int w,
                  f (bucket_values w series (bin_start w origin t0 + int i * int w))))
          [0..<nat (kn - k0) + 1]"
    by (simp only: rs0 nb)
  have "(b, f (bucket_values w series b)) \<in> set (resample_series w f series)"
    unfolding rs set_map bi using i(1) by (intro image_eqI[where x=i]) auto
  moreover from bin_start_bounds[OF w, of origin t] have bt: "b \<le> t \<and> t < b + int w"
    by (simp add: b_def)
  moreover from mem bt have "x \<in> set (bucket_values w series b)"
    by (force simp: bucket_values_def)
  ultimately show ?thesis by blast
qed

lemma sorted_same_station:
  fixes rs :: "(int \<times> int \<times> 'a) list"
  shows "sorted (map (\<lambda>r. (fst r, fst (snd r))) rs) \<Longrightarrow> \<forall>r \<in> set rs. fst r = s
           \<Longrightarrow> sorted (map (\<lambda>r. fst (snd r)) rs)"
  by (induction rs) (force simp: less_eq_prod_def)+

lemma sorted_station_series:
  fixes df :: station_frame
  assumes "sorted (map (\<lambda>(s, t, v). (s, t)) df)"
  shows "sorted (map fst (station_series df s))"
proof -
  from assms have "sorted (map (\<lambda>r. (fst r, fst (snd r))) df)"
    by (simp add: case_prod_unfold)
  then have "sorted (map (\<lambda>r. (fst r, fst (snd r))) (filter (\<lambda>(s', t, v). s' = s) df))"
    by (rule sorted_filter)
  moreover have "\<forall>r \<in> set (filter (\<lambda>(s', t, v). s' = s) df). fst r = s" by auto
  ultimately have "sorted (map (\<lambda>r. fst (snd r)) (filter (\<lambda>(s', t, v). s' = s) df))"
    by (rule sorted_same_station)
  then show ?thesis by (simp add: station_series_def comp_def)
qed

lemma resample_frame_rows:
  "(s, b, v) \<in> set (resample_frame w f df) \<longleftrightarrow>
     s \<in> fst ` set df \<and> (b, v) \<in> set (resample_series w f (station_series df s))"
  by (auto simp: resample_frame_def)

lemma resample_frame_bucket:
  "(s, b, v) \<in> set (resample_frame w f df) \<Longrightarrow> v = f (bucket_values w (station_series df s) b)"
  by (auto simp: resample_frame_rows dest: resample_series_bucket)

lemma resample_frame_covers:
  fixes df :: station_frame
  assumes w: "0 < w" and srt: "sorted (map (\<lambda>(s, t, v). (s, t)) df)" and mem: "(s, t, x) \<in> set df"
  shows "\<exists>b. b \<le> t \<and> t < b + int w \<and> x \<in> set (bucket_values w (station_series df s) b) \<and>
             (s, b, f (bucket_values w (station_series df s) b)) \<in> set (resample_frame w f df)"
proof -
  from mem have m: "(t, x) \<in> set (station_series df s)" by (force simp: station_series_def)
  from mem have s: "s \<in> fst ` set df" by force
  from resample_series_covers[OF w sorted_station_series[OF srt] m, of f] s
  show ?thesis by (auto simp: resample_frame_rows)
qed

lemma resample_convert_sorted:
  "sorted (map (\<lambda>(s, t, v). (s, t)) (fst (resample_convert dt str num rows)))"
  by (simp add: resample_convert_def Let_def sorted_sort_key)

lemma dedup_same_rows:
  fixes key :: "'r \<Rightarrow> 'k::linorder"
  assumes "\<forall>r \<in> set rs. \<forall>r' \<in> set rs. key r = key r' \<longrightarrow> r = r'"
  shows "set (sort_key key (fst (drop_duplicates_keep_last key rs))) = set rs"
proof
  show "set (sort_key key (fst (drop_duplicates_keep_last key rs))) \<subseteq> set rs"
    by (rule dedup_sorted_props(3))
  show "set rs \<subseteq> set (sort_key key (fst (drop_duplicates_keep_last key rs)))"
  proof
    fix r assume r: "r \<in> set rs"
    let ?out = "sort_key key (fst (drop_duplicates_keep_last key rs))"
    from r have "key r \<in> key ` set rs" by simp
    from dedup_sorted_props(2)[OF this]
    have e: "filter (\<lambda>x. key x = key r) ?out = [last (filter (\<lambda>x. key x = key r) rs)]" .
    from r have ne: "filter (\<lambda>x. key x = key r) rs \<noteq> []" by (auto simp: filter_empty_conv)
    from last_in_set[OF ne] have l: "last (filter (\<lambda>x. key x = key r) rs) \<in> set rs"
      "key (last (filter (\<lambda>x. key x = key r) rs)) = key r" by auto
    with assms r have "last (filter (\<lambda>x. key x = key r) rs) = r" by blast
    with e have "r \<in> set (filter (\<lambda>x. key x = key r) ?out)" by simp
    then show "r \<in> set ?out" by simp
  qed
qed

lemma flow_pipeline_rows:
  assumes "clean_and_resample_flow dt str num pr rows rule agg = Inr (out, ws, st)" and "rule \<noteq> []"
  shows "\<exists>w f. pr rule = Some w \<and> 0 < w \<and> flow_reducer agg = Inr f \<and>
           set out = set (resample_frame w f (fst (resample_convert dt str num rows)))"
proof -
  obtain conv a b c where rc: "resample_convert dt str num rows = (conv, a, b, c)"
    by (metis prod_cases4)
  from assms obtain f where f: "flow_reducer agg = Inr f"
    by (cases "flow_reducer agg") (auto simp: clean_and_resample_flow_def rc Let_def)
  from assms f obtain w where w: "pr rule = Some w" "w > 0"
    by (cases "pr rule") (auto simp: clean_and_resample_flow_def rc Let_def split: if_splits)
  from assms f w have ne: "conv \<noteq> []"
    by (auto simp: clean_and_resample_flow_def rc Let_def split: if_splits)
  let ?rs = "resample_frame w f conv"
  obtain dd n where dd: "drop_duplicates_keep_last (\<lambda>(s, t, v). (t, s)) ?rs = (dd, n)"
    by (cases "drop_duplicates_keep_last (\<lambda>(s, t, v). (t, s)) ?rs")
  from assms f w ne have out: "out = sort_key (\<lambda>(s, t, v). (t, s)) dd"
    by (simp add: clean_and_resample_flow_def rc Let_def dd)
  have same: "\<forall>r \<in> set ?rs. \<forall>r' \<in> set ?rs.
            (\<lambda>(s, t, v). (t, s)) r = (\<lambda>(s, t, v). (t, s)) r' \<longrightarrow> r = r'"
    by (auto dest!: resample_frame_bucket)
  have "set out = set ?rs"
    using dedup_same_rows[OF same] out dd by simp
  with f w rc show ?thesis by auto
qed

lemma volume_pipeline_rows:
  assumes "clean_and_resample_volume dt str num pr rows rule agg = Inr (out, ws, st)"
  shows "\<exists>w. pr rule = Some w \<and> 0 < w \<and>
           out = resample_frame w (volume_reducer agg) (fst (resample_convert dt str num rows))"
proof -
  obtain conv a b c where rc: "resample_convert dt str num rows = (conv, a, b, c)"
    by (metis prod_cases4)
  from assms obtain w where w: "pr rule = Some w" "w > 0"
    by (cases "pr rule") (auto simp: clean_and_resample_volume_def rc Let_def split: if_splits)
  from assms w have out: "out = resample_frame w (volume_reducer agg) conv"
    by (simp add: clean_and_resample_volume_def rc Let_def)
  with w rc show ?thesis by auto
qed

lemma flow_every_bucket:
  assumes "clean_and_resample_flow dt str num pr rows rule agg = Inr (out, ws, st)" and "rule \<noteq> []"
  shows "\<exists>w f. pr rule = Some w \<and> 0 < w \<and> flow_reducer agg = Inr f \<and>
           (\<forall>(s, b, v) \<in> set out.
               v = f (bucket_values w (station_series (fst (resample_convert dt str num rows)) s) b)) \<and>
           (\<forall>(s, t, x) \<in> set (fst (resample_convert dt str num rows)).
               \<exists>b. b \<le> t \<and> t < b + int w \<and>
                   x \<in> set (bucket_values w (station_series (fst (resample_convert dt str num rows)) s) b) \<and>
                   (s, b, f (bucket_values w (station_series (fst (resample_convert dt str num rows)) s) b))
                     \<in> set out)"
proof -
  let ?conv = "fst (resample_convert dt str num rows)"
  from flow_pipeline_rows[OF assms] obtain w f where
    w: "pr rule = Some w" "0 < w" and f: "flow_reducer agg = Inr f"
    and out: "set out = set (resample_frame w f ?conv)" by blast
  have 1: "\<forall>(s, b, v) \<in> set out. v = f (bucket_values w (station_series ?conv s) b)"
    unfolding out by (auto dest: resample_frame_bucket)
  have 2: "\<forall>(s, t, x) \<in> set ?conv.
               \<exists>b. b \<le> t \<and> t < b + int w \<and> x \<in> set (bucket_values w (station_series ?conv s) b) \<and>
                   (s, b, f (bucket_values w (station_series ?conv s) b)) \<in> set out"
    unfolding out using resample_frame_covers[OF w(2) resample_convert_sorted, of _ _ _ dt str num rows f]
    by auto
  from w f 1 2 show ?thesis by blast
qed

lemma volume_every_bucket:
  assumes "clean_and_resample_volume dt str num pr rows rule agg = Inr (out, ws, st)"
  shows "\<exists>w. pr rule = Some w \<and> 0 < w \<and>
           (\<forall>(s, b, v) \<in> set out.
               v = volume_reducer agg
                     (bucket_values w (station_series (fst (resample_convert dt str num rows)) s) b)) \<and>
           (\<forall>(s, t, x) \<in> set (fst (resample_convert dt str num rows)).
               \<exists>b. b \<le> t \<and> t < b + int w \<and>
                   x \<in> set (bucket_values w (station_series (fst (resample_convert dt str num rows)) s) b) \<and>
                   (s, b, volume_reducer agg
                            (bucket_values w (station_series (fst (resample_convert dt str num rows)) s) b))
                     \<in> set out)"
proof -
  let ?conv = "fst (resample_convert dt str num rows)"
  from volume_pipeline_rows[OF assms] obtain w where
    w: "pr rule = Some w" "0 < w"
    and out: "out = resample_frame w (volume_reducer agg) ?conv" by blast
  have 1: "\<forall>(s, b, v) \<in> set out. v = volume_reducer agg (bucket_values w (station_series ?conv s) b)"
    unfolding out by (auto dest: resample_frame_bucket)
  have 2: "\<forall>(s, t, x) \<in> set ?conv.
               \<exists>b. b \<le> t \<and> t < b + int w \<and> x \<in> set (bucket_values w (station_series ?conv s) b) \<and>
                   (s, b, volume_reducer agg (bucket_values w (station_series ?conv s) b)) \<in> set out"
    unfolding out
    using resample_frame_covers[OF w(2) resample_convert_sorted, of _ _ _ dt str num rows "volume_reducer agg"]
    by auto
  from w 1 2 show ?thesis by blast
qed

lemma u_inj: "u a = u b \<longleftrightarrow> a = b"
  by (simp add: u_def inj_map_eq_map inj_on_def)

lemma flow_reducer_cases:
  "flow_reducer (u ''mean'') = Inr agg_mean"
  "flow_reducer (u ''last'') = Inr agg_last"
  "flow_reducer (u ''sum'') = Inr agg_sum"
  "flow_reducer (u ''max'') = Inr agg_max"
  "flow_reducer (u ''min'') = Inr agg_min"
  "flow_reducer (u ''median'') = Inr agg_median"
  by (simp_all add: flow_reducer_def u_inj)

lemma volume_reducer_cases:
  "volume_reducer (u ''mean'') = agg_mean"
  "volume_reducer (u ''last'') = agg_last"
  "volume_reducer (u ''min'') = agg_min"
  "volume_reducer (u ''max'') = agg_max"
  "volume_reducer (u ''median'') = agg_median"
  by (simp_all add: volume_reducer_def u_inj)

lemma flow_choices_accepted:
  "parse_agg flow_agg_choices agg = Inr agg \<longleftrightarrow>
     agg \<in> {u ''mean'', u ''last'', u ''sum'', u ''max'', u ''min'', u ''median''}"
  by (auto simp: parse_agg_def flow_agg_choices_def)

lemma volume_choices_iff:
  "parse_agg volume_agg_choices agg = Inr agg \<longleftrightarrow>
     agg \<in> {u ''mean'', u ''last'', u ''min'', u ''max'', u ''median''}"
  by (auto simp: parse_agg_def volume_agg_choices_def)

lemma ex_reductions:
  "agg_mean [Some 1, Some 2, Some 3] = Some 2"
  "agg_sum [Some 1, Some 2, Some 3] = Some 6"
  by (simp_all add: agg_mean_def agg_sum_def dropna_def mean_def)

lemma ex_flow_mean:
  "map_sum id fst (clean_and_resample_flow ex_to_datetime ex_astype_str ex_to_numeric ex_parse_rule ex_mapped_rows (u ''1h'') (u ''mean''))
    = Inr [(1, 0, Some 2)]"
  by code_simp

lemma ex_flow_sum:
  "map_sum id fst (clean_and_resample_flow ex_to_datetime ex_astype_str ex_to_numeric ex_parse_rule ex_mapped_rows (u ''1h'') (u ''sum''))
    = Inr [(1, 0, Some 6)]"
  by code_simp

lemma ex_flow_empty:
  "clean_and_resample_flow ex_to_datetime ex_astype_str ex_to_numeric ex_parse_rule [] (u ''1h'') (u ''mean'')
    = Inl KeyError"
  by code_simp

lemma ex_build_cmd:
  "build_cmd_resample ex_db (u ''1h'') (u ''sum'') = [u ''--resample-rule'', u ''1h'', u ''--agg'', u ''sum'']"
  by code_simp

lemma ex_parse_sum:
  "flow_parse_args_agg [u ''--resample-rule'', u ''1h'', u ''--agg'', u ''sum''] = Inr (u ''sum'')"
  "volume_parse_args_agg [u ''--resample-rule'', u ''1h'', u ''--agg'', u ''sum''] = Inl (SystemExit 2)"
  by code_simp+

text \<open>
  Claim C8. Resampling reduces the values of every (station, bucket) with the one reducer that
  \<open>agg\<close> selects, in both scripts (\<open>flow_every_bucket\<close>, \<open>volume_every_bucket\<close>), and the
  flow script takes the six aggregations: the values 1, 2, 3 of one hourly bucket give 2 under
  mean and 6 under sum. The volume script does not take \<open>sum\<close>, although the aggregation box
  of the interface offers it on the volume tab and passes it on: on the command line that the
  interface builds for \<open>sum\<close>, the argument parser of the flow script returns \<open>sum\<close> and the
  argument parser of the volume script exits with status 2.
\<close>

theorem C8_volume_rejects_sum:
  "u ''sum'' \<in> set agg_combobox_values \<and>
   build_cmd_resample ex_db (u ''1h'') (u ''sum'') = [u ''--resample-rule'', u ''1h'', u ''--agg'', u ''sum''] \<and>
   flow_parse_args_agg (build_cmd_resample ex_db (u ''1h'') (u ''sum'')) = Inr (u ''sum'') \<and>
   volume_parse_args_agg (build_cmd_resample ex_db (u ''1h'') (u ''sum'')) = Inl (SystemExit 2) \<and>
   map_sum id fst (clean_and_resample_flow ex_to_datetime ex_astype_str ex_to_numeric ex_parse_rule
                     ex_mapped_rows (u ''1h'') (u ''mean'')) = Inr [(1, 0, Some 2)] \<and>
   map_sum id fst (clean_and_resample_flow ex_to_datetime ex_astype_str ex_to_numeric ex_parse_rule
                     ex_mapped_rows (u ''1h'') (u ''sum'')) = Inr [(1, 0, Some 6)]"
  using ex_flow_mean ex_flow_sum ex_parse_sum
  by (simp add: ex_build_cmd agg_combobox_values_def)

section \<open>Text normalizer: idempotence\<close>

lemma split_from_props:
  assumes "\<forall>c \<in> set word. \<not> ud_space db c"
  shows "\<forall>w \<in> set (split_from db word s). w \<noteq> [] \<and> (\<forall>c \<in> set w. \<not> ud_space db c \<and> c \<in> set word \<union> set s)"
  using assms
proof (induction s arbitrary: word)
  case Nil
  then show ?case by auto
next
  case (Cons c cs)
  show ?case
  proof (cases "ud_space db c")
    case True
    have "\<forall>w \<in> set (split_from db [] cs). w \<noteq> [] \<and> (\<forall>c \<in> set w. \<not> ud_space db c \<and> c \<in> set [] \<union> set cs)"
      by (rule Cons.IH) simp
    with True Cons.prems show ?thesis by auto
  next
    case False
    with Cons.prems have "\<forall>x \<in> set (word @ [c]). \<not> ud_space db x" by auto
    from Cons.IH[OF this] False show ?thesis by auto
  qed
qed

lemma split_from_append_word:
  "\<forall>c \<in> set w. \<not> ud_space db c \<Longrightarrow> split_from db word (w @ rest) = split_from db (word @ w) rest"
  by (induction w arbitrary: word) auto

lemma split_from_join:
  assumes sp: "ud_space db 32"
    and ws: "\<forall>w \<in> set ws. w \<noteq> [] \<and> (\<forall>c \<in> set w. \<not> ud_space db c)"
  shows "split_from db word (join_space ws)
           = (case ws of [] \<Rightarrow> (if word = [] then [] else [word]) | w # ws' \<Rightarrow> (word @ w) # ws')"
  using ws
proof (induction ws arbitrary: word rule: join_space.induct)
  case 1
  then show ?case by simp
next
  case (2 w)
  then show ?case by (simp add: split_from_append_word[where rest="[]", simplified])
next
  case (3 w v vs)
  from "3.prems" have w: "\<forall>c \<in> set w. \<not> ud_space db c" "w \<noteq> []" by auto
  from "3.prems" have rest: "\<forall>w \<in> set (v # vs). w \<noteq> [] \<and> (\<forall>c \<in> set w. \<not> ud_space db c)" by auto
  have "split_from db word (join_space (w # v # vs)) = split_from db (word @ w) (32 # join_space (v # vs))"
    using split_from_append_word[OF w(1)] by simp
  also have "\<dots> = (word @ w) # split_from db [] (join_space (v # vs))"
    using sp w by simp
  also have "split_from db [] (join_space (v # vs)) = v # vs"
    using "3.IH"[OF rest, of "[]"] by simp
  finally show ?case by simp
qed

lemma str_split_join:
  assumes "ud_space db 32" and "\<forall>w \<in> set ws. w \<noteq> [] \<and> (\<forall>c \<in> set w. \<not> ud_space db c)"
  shows "str_split db (join_space ws) = ws"
  using split_from_join[OF assms, of "[]"] by (simp add: str_split_def split: list.splits)

lemma set_join_space: "set (join_space ws) \<subseteq> insert 32 (\<Union> (set ` set ws))"
  by (induction ws rule: join_space.induct) auto

lemma join_space_ne:
  "ws \<noteq> [] \<Longrightarrow> \<forall>w \<in> set ws. w \<noteq> [] \<Longrightarrow> join_space ws \<noteq> []"
  by (induction ws rule: join_space.induct) auto

lemma join_space_hd_last:
  assumes "\<forall>w \<in> set ws. w \<noteq> [] \<and> (\<forall>c \<in> set w. \<not> P c)"
  shows "join_space ws = [] \<or> (\<not> P (hd (join_space ws)) \<and> \<not> P (last (join_space ws)))"
  using assms
proof (induction ws rule: join_space.induct)
  case 1
  then show ?case by simp
next
  case (2 w)
  then show ?case by (cases w rule: rev_cases) (auto simp: hd_append)
next
  case (3 w v vs)
  then have ne: "join_space (v # vs) \<noteq> []" by (intro join_space_ne) auto
  from 3 have ih: "\<not> P (last (join_space (v # vs)))" using ne by auto
  from 3 have "w \<noteq> []" "\<not> P (hd w)" by (auto simp: hd_in_set)
  with ih ne show ?case by (cases w) auto
qed

lemma str_strip_id:
  assumes "s = [] \<or> (\<not> ud_space db (hd s) \<and> \<not> ud_space db (last s))"
  shows "str_strip db s = s"
proof (cases s)
  case Nil
  then show ?thesis by (simp add: str_strip_def)
next
  case (Cons c cs)
  with assms have h: "\<not> ud_space db (hd s)" and l: "\<not> ud_space db (last s)" by auto
  from Cons h have 1: "dropWhile (ud_space db) s = s" by simp
  from Cons l have 2: "dropWhile (ud_space db) (rev s) = rev s"
    by (cases "rev s") (auto simp: last_rev hd_rev[symmetric])
  show ?thesis by (simp add: str_strip_def 1 2)
qed

lemma lower_from_id:
  "\<forall>c \<in> set s. c \<noteq> 931 \<and> ud_lower db c = [c] \<Longrightarrow> lower_from db passed s = s"
  by (induction s arbitrary: passed) auto

lemma set_lower_from:
  "set (lower_from db passed s) \<subseteq> {962, 963} \<union> (\<Union>c \<in> set s. set (ud_lower db c))"
  by (induction s arbitrary: passed) (auto simp: handle_capital_sigma_def Let_def)

lemma canonical_order_id:
  "\<forall>c \<in> set s. ud_combining db c = 0 \<Longrightarrow> canonical_order db [] s = s"
  by (induction s) auto

lemma nfkd_id:
  assumes "\<forall>c \<in> set s. ud_decomp db c = [c] \<and> ud_combining db c = 0"
  shows "nfkd db s = s"
proof -
  from assms have "concat (map (ud_decomp db) s) = s" by (induction s) auto
  with assms show ?thesis by (simp add: nfkd_def canonical_order_id)
qed

lemma drop_combining_id:
  "\<forall>c \<in> set s. ud_combining db c = 0 \<Longrightarrow> drop_combining db s = s"
  by (simp add: drop_combining_def)

lemma replace_from_id:
  "x \<in> set old \<Longrightarrow> x \<notin> set s \<Longrightarrow> replace_from old new 0 s = s"
proof (induction s)
  case Nil
  then show ?case by simp
next
  case (Cons c cs)
  then have "\<not> prefix old (c # cs)" using set_mono_prefix[of old "c # cs"] by auto
  with Cons show ?case by simp
qed

lemma str_replace_id: "x \<in> set old \<Longrightarrow> x \<notin> set s \<Longrightarrow> str_replace old new s = s"
  by (simp add: str_replace_def replace_from_id)

lemma set_replace_from:
  "set (replace_from old new k s) \<subseteq> set new \<union> set s"
  by (induction old new k s rule: replace_from.induct) auto

lemma replace_from_single:
  "x \<notin> set new \<Longrightarrow> x \<notin> set (replace_from [x] new k s)"
  by (induction "[x]" new k s rule: replace_from.induct) auto

lemma sub_outside_id: "\<forall>c \<in> set s. in_class c \<Longrightarrow> sub_outside b s = s"
  by (induction s arbitrary: b) auto

lemma sub_outside_class: "\<forall>c \<in> set (sub_outside b s). in_class c"
  by (induction b s rule: sub_outside.induct) (auto simp: in_class_def)

lemma ok_class:
  assumes "unicode_ok db" "in_class c"
  shows "ud_lower db c = [c]" "ud_decomp db c = [c]" "ud_combining db c = 0" "c \<noteq> 931"
        "ud_space db c \<longleftrightarrow> c = 32" "c \<noteq> 233" "c \<noteq> 40" "c \<noteq> 95"
proof -
  from assms(2) have lt: "c < 128" and nu: "\<not> (65 \<le> c \<and> c \<le> 90)" by (auto simp: in_class_def)
  from assms(1) lt nu show "ud_lower db c = [c]" by (simp add: unicode_ok_def)
  from assms(1) lt show "ud_decomp db c = [c]" by (simp add: unicode_ok_def)
  from assms(1) lt show "ud_combining db c = 0" by (simp add: unicode_ok_def)
  from lt show "c \<noteq> 931" by simp
  from assms(1) lt have "ud_space db c \<longleftrightarrow> (9 \<le> c \<and> c \<le> 13) \<or> (28 \<le> c \<and> c \<le> 32)"
    by (simp add: unicode_ok_def)
  with assms(2) show "ud_space db c \<longleftrightarrow> c = 32" by (auto simp: in_class_def)
  from assms(2) show "c \<noteq> 233" "c \<noteq> 40" "c \<noteq> 95" by (auto simp: in_class_def)
qed

lemma str_lower_id:
  "\<forall>c \<in> set s. c \<noteq> 931 \<and> ud_lower db c = [c] \<Longrightarrow> str_lower db s = s"
  by (simp add: str_lower_def lower_from_id)

lemma ok_space32: "unicode_ok db \<Longrightarrow> ud_space db 32"
  by (simp add: unicode_ok_def)

lemma clean_tail_words:
  assumes ok: "unicode_ok db"
  shows "\<forall>w \<in> set (str_split db (sub_outside False s)).
            w \<noteq> [] \<and> (\<forall>c \<in> set w. \<not> ud_space db c \<and> in_class c)"
proof -
  have "\<forall>w \<in> set (split_from db [] (sub_outside False s)).
          w \<noteq> [] \<and> (\<forall>c \<in> set w. \<not> ud_space db c \<and> c \<in> set [] \<union> set (sub_outside False s))"
    by (rule split_from_props) simp
  with sub_outside_class[of False s] show ?thesis
    by (auto simp: str_split_def)
qed

lemma class_words_fixed:
  assumes ok: "unicode_ok db"
    and ws: "\<forall>w \<in> set ws. w \<noteq> [] \<and> (\<forall>c \<in> set w. \<not> ud_space db c \<and> in_class c)"
  shows "str_strip db (join_space ws) = join_space ws"
    and "str_lower db (join_space ws) = join_space ws"
    and "nfkd db (join_space ws) = join_space ws"
    and "drop_combining db (join_space ws) = join_space ws"
    and "x \<in> set old \<Longrightarrow> \<not> in_class x \<Longrightarrow> str_replace old new (join_space ws) = join_space ws"
    and "sub_outside False (join_space ws) = join_space ws"
    and "join_space (str_split db (join_space ws)) = join_space ws"
proof -
  have cls: "\<forall>c \<in> set (join_space ws). in_class c"
    using set_join_space[of ws] ws by (auto simp: in_class_def)
  from ws have ws': "\<forall>w \<in> set ws. w \<noteq> [] \<and> (\<forall>c \<in> set w. \<not> ud_space db c)" by auto
  show "str_strip db (join_space ws) = join_space ws"
    by (rule str_strip_id) (rule join_space_hd_last[OF ws'])
  show "str_lower db (join_space ws) = join_space ws"
    using cls ok_class[OF ok] by (intro str_lower_id) auto
  show "nfkd db (join_space ws) = join_space ws"
    using cls ok_class[OF ok] by (intro nfkd_id) auto
  show "drop_combining db (join_space ws) = join_space ws"
    using cls ok_class[OF ok] by (intro drop_combining_id) auto
  show "str_replace old new (join_space ws) = join_space ws" if "x \<in> set old" "\<not> in_class x"
    using that cls by (intro str_replace_id[of x]) auto
  show "sub_outside False (join_space ws) = join_space ws"
    using cls by (rule sub_outside_id)
  show "join_space (str_split db (join_space ws)) = join_space ws"
    using str_split_join[OF ok_space32[OF ok] ws'] by simp
qed

lemma u_codes:
  "u ''d'' @ [233] @ u ''bit'' = [100, 233, 98, 105, 116]"
  "u ''(m3/s)'' = [40, 109, 51, 47, 115, 41]"
  "u ''_'' = [95]" "u '' '' = [32]"
  "u ''(mm3)'' = [40, 109, 109, 51, 41]" "u ''(mm 3)'' = [40, 109, 109, 32, 51, 41]"
  "u ''(hm3)'' = [40, 104, 109, 51, 41]" "u ''(hm 3)'' = [40, 104, 109, 32, 51, 41]"
  "u ''debit'' = [100, 101, 98, 105, 116]"
  by (simp_all add: u_def)

lemma not_class: "\<not> in_class 233" "\<not> in_class 40" "\<not> in_class 95"
  by (simp_all add: in_class_def)

lemma normalize_flow_idem:
  assumes ok: "unicode_ok db"
  shows "normalize_text_flow db (Some (normalize_text_flow db v)) = normalize_text_flow db v"
proof (cases v)
  case None
  then show ?thesis
    by (simp add: normalize_text_flow_def str_strip_def str_lower_def nfkd_def drop_combining_def
          str_replace_def str_split_def Let_def)
next
  case (Some s)
  then obtain ws where r: "normalize_text_flow db v = join_space ws"
    and ws: "\<forall>w \<in> set ws. w \<noteq> [] \<and> (\<forall>c \<in> set w. \<not> ud_space db c \<and> in_class c)"
    using clean_tail_words[OF ok] by (auto simp: normalize_text_flow_def Let_def)
  note f = class_words_fixed[OF ok ws]
  have 1: "str_replace (u ''d'' @ [233] @ u ''bit'') (u ''debit'') (join_space ws) = join_space ws"
    by (rule f(5)[of 233]) (simp_all add: u_codes not_class)
  have 2: "str_replace (u ''(m3/s)'') [] (join_space ws) = join_space ws"
    by (rule f(5)[of 40]) (simp_all add: u_codes not_class)
  have 3: "str_replace (u ''_'') (u '' '') (join_space ws) = join_space ws"
    by (rule f(5)[of 95]) (simp_all add: u_codes not_class)
  show ?thesis
    unfolding r by (simp add: normalize_text_flow_def Let_def f(1,2,3,4,6,7) 1[simplified] 2 3)
qed

lemma normalize_volume_idem:
  assumes ok: "unicode_ok db"
  shows "normalize_text_volume db (Some (normalize_text_volume db v)) = normalize_text_volume db v"
proof (cases v)
  case None
  then show ?thesis
    by (simp add: normalize_text_volume_def str_strip_def str_lower_def nfkd_def drop_combining_def
          str_replace_def str_split_def Let_def)
next
  case (Some s)
  then obtain ws where r: "normalize_text_volume db v = join_space ws"
    and ws: "\<forall>w \<in> set ws. w \<noteq> [] \<and> (\<forall>c \<in> set w. \<not> ud_space db c \<and> in_class c)"
    using clean_tail_words[OF ok] by (auto simp: normalize_text_volume_def Let_def)
  note f = class_words_fixed[OF ok ws]
  have 1: "str_replace (u ''_'') (u '' '') (join_space ws) = join_space ws"
    by (rule f(5)[of 95]) (simp_all add: u_codes not_class)
  have 2: "str_replace (u ''(mm3)'') [] (join_space ws) = join_space ws"
    by (rule f(5)[of 40]) (simp_all add: u_codes not_class)
  have 3: "str_replace (u ''(mm 3)'') [] (join_space ws) = join_space ws"
    by (rule f(5)[of 40]) (simp_all add: u_codes not_class)
  have 4: "str_replace (u ''(hm3)'') [] (join_space ws) = join_space ws"
    by (rule f(5)[of 40]) (simp_all add: u_codes not_class)
  have 5: "str_replace (u ''(hm 3)'') [] (join_space ws) = join_space ws"
    by (rule f(5)[of 40]) (simp_all add: u_codes not_class)
  show ?thesis
    unfolding r by (simp add: normalize_text_volume_def Let_def f(1,2,3,4,6,7) 1 2 3 4 5)
qed

lemma normalize_obs_idem:
  assumes ok: "unicode_ok db"
  shows "normalize_text_obs db (Some (normalize_text_obs db v)) = normalize_text_obs db v"
proof (cases v)
  case None
  then show ?thesis
    by (simp add: normalize_text_obs_def str_strip_def str_lower_def str_replace_def str_split_def)
next
  case (Some s)
  let ?l = "str_lower db (str_strip db s)"
  let ?r = "str_replace (u ''_'') (u '' '') ?l"
  let ?ws = "str_split db ?r"
  have r: "normalize_text_obs db v = join_space ?ws"
    using Some by (simp add: normalize_text_obs_def)
  have sp: "ud_space db 32" by (rule ok_space32[OF ok])
  have A3: "ud_lower db c' = [c'] \<and> c' \<noteq> 931" if "c' \<in> set (ud_lower db c)" for c c'
    using ok that unfolding unicode_ok_def by blast
  have A4: "ud_lower db 962 = [962]" "ud_lower db 963 = [963]"
    using ok unfolding unicode_ok_def by blast+
  have stable: "\<forall>c \<in> set ?l. ud_lower db c = [c] \<and> c \<noteq> 931"
  proof
    fix c assume "c \<in> set ?l"
    with set_lower_from[of db "[]" "str_strip db s"]
    have "c = 962 \<or> c = 963 \<or> (\<exists>c0. c \<in> set (ud_lower db c0))"
      by (auto simp: str_lower_def)
    with A3 A4 show "ud_lower db c = [c] \<and> c \<noteq> 931" by auto
  qed
  have r95: "95 \<notin> set ?r"
    using replace_from_single[of 95 "[32]" 0 ?l] by (simp add: str_replace_def u_codes)
  have rset: "set ?r \<subseteq> insert 32 (set ?l)"
    using set_replace_from[of "[95]" "[32]" 0 ?l] by (auto simp: str_replace_def u_codes)
  have props: "\<forall>w \<in> set ?ws. w \<noteq> [] \<and> (\<forall>c \<in> set w. \<not> ud_space db c \<and> c \<in> set [] \<union> set ?r)"
    unfolding str_split_def by (rule split_from_props) simp
  then have ws': "\<forall>w \<in> set ?ws. w \<noteq> [] \<and> (\<forall>c \<in> set w. \<not> ud_space db c)" by blast
  have l32: "ud_lower db 32 = [32]" using ok by (simp add: unicode_ok_def)
  have chars: "\<forall>c \<in> set (join_space ?ws). c \<noteq> 95 \<and> c \<noteq> 931 \<and> ud_lower db c = [c]"
  proof
    fix c assume "c \<in> set (join_space ?ws)"
    with set_join_space[of ?ws] have "c = 32 \<or> (\<exists>w \<in> set ?ws. c \<in> set w)" by auto
    then show "c \<noteq> 95 \<and> c \<noteq> 931 \<and> ud_lower db c = [c]"
    proof
      assume "c = 32" with l32 show ?thesis by simp
    next
      assume "\<exists>w \<in> set ?ws. c \<in> set w"
      with props have c: "c \<in> set ?r" "\<not> ud_space db c" by auto
      with sp have "c \<noteq> 32" by auto
      with c rset have "c \<in> set ?l" by auto
      with stable c r95 show ?thesis by auto
    qed
  qed
  have 1: "str_strip db (join_space ?ws) = join_space ?ws"
    by (rule str_strip_id) (rule join_space_hd_last[OF ws'])
  have 2: "str_lower db (join_space ?ws) = join_space ?ws"
    using chars by (intro str_lower_id) auto
  have 3: "str_replace (u ''_'') (u '' '') (join_space ?ws) = join_space ?ws"
    using chars by (intro str_replace_id[of 95]) (auto simp: u_codes)
  have 4: "str_split db (join_space ?ws) = ?ws"
    by (rule str_split_join[OF sp ws'])
  show ?thesis
    unfolding r by (simp add: normalize_text_obs_def 1 2 3 4)
qed

lemma replace_from_Nil: "replace_from old new k [] = []"
  by simp

lemma replace_from_Cons:
  "replace_from old new k (c # cs) =
     (if k = 0 then (if prefix old (c # cs) then new @ replace_from old new (length old - 1) cs
                     else c # replace_from old new 0 cs)
      else replace_from old new (k - 1) cs)"
  by (cases k) auto

lemma ok_rules:
  assumes "unicode_ok db"
  shows "c < 128 \<Longrightarrow> ud_lower db c = [if 65 \<le> c \<and> c \<le> 90 then c + 32 else c]"
    and "c < 128 \<Longrightarrow> ud_decomp db c = [c]"
    and "c < 128 \<Longrightarrow> ud_combining db c = 0"
    and "c < 128 \<Longrightarrow> ud_space db c \<longleftrightarrow> (9 \<le> c \<and> c \<le> 13) \<or> (28 \<le> c \<and> c \<le> 32)"
    and "ud_lower db 233 = [233]" and "ud_space db 233 = False"
    and "ud_decomp db 233 = [101, 769]" and "(ud_combining db 769 = 0) = False"
  using assms unfolding unicode_ok_def by auto

lemmas norm_eval = str_strip_def str_lower_def nfkd_def drop_combining_def str_replace_def
  str_split_def Let_def in_class_def u_def replace_from_Cons replace_from_Nil

lemma flow_example:
  assumes "unicode_ok db"
  shows "normalize_text_flow db (Some ex_label_debit) = u ''debit''"
    and "normalize_text_flow db (Some (u ''debit'')) = u ''debit''"
  by (simp_all add: normalize_text_flow_def ex_label_debit_def norm_eval ok_rules[OF assms] del: replace_from.simps)

lemma volume_example:
  assumes "unicode_ok db"
  shows "normalize_text_volume db (Some ex_label_debit) = u ''debit m3 s''"
    and "normalize_text_volume db (Some (u ''debit'')) = u ''debit''"
  by (simp_all add: normalize_text_volume_def ex_label_debit_def norm_eval ok_rules[OF assms] del: replace_from.simps)

lemma obs_example:
  assumes "unicode_ok db"
  shows "normalize_text_obs db (Some ex_label_debit) = u ''d'' @ [233] @ u ''bit (m3/s)''"
    and "normalize_text_obs db (Some (u ''debit'')) = u ''debit''"
  by (simp_all add: normalize_text_obs_def ex_label_debit_def norm_eval ok_rules[OF assms] del: replace_from.simps)

lemma ex_db_ok: "unicode_ok ex_db"
  by (auto simp: unicode_ok_def ex_db_def)

lemma upper_example:
  assumes "unicode_ok db"
  shows "normalize_text_flow db (Some (u ''DEBIT'')) = u ''debit''"
    and "normalize_text_volume db (Some (u ''DEBIT'')) = u ''debit''"
    and "normalize_text_obs db (Some (u ''DEBIT'')) = u ''debit''"
  by (simp_all add: normalize_text_flow_def normalize_text_volume_def normalize_text_obs_def
        norm_eval ok_rules[OF assms] del: replace_from.simps)

lemma dropWhile_rel:
  assumes "list_all2 R xs ys" and "\<And>a b. R a b \<Longrightarrow> P a = P b"
  shows "list_all2 R (dropWhile P xs) (dropWhile P ys)"
  using assms(1)
proof (induction rule: list_all2_induct)
  case Nil
  then show ?case by simp
next
  case (Cons a xs b ys)
  with assms(2)[of a b] show ?case by auto
qed

lemma str_strip_rel:
  assumes "list_all2 R x y" and sp: "\<And>a b. R a b \<Longrightarrow> ud_space db a = ud_space db b"
  shows "list_all2 R (str_strip db x) (str_strip db y)"
proof -
  from dropWhile_rel[OF assms(1), of "ud_space db"] sp
  have "list_all2 R (dropWhile (ud_space db) x) (dropWhile (ud_space db) y)" by blast
  then have "list_all2 R (rev (dropWhile (ud_space db) x)) (rev (dropWhile (ud_space db) y))"
    by (simp add: list_all2_rev1 list_all2_rev)
  from dropWhile_rel[OF this, of "ud_space db"] sp
  have "list_all2 R (dropWhile (ud_space db) (rev (dropWhile (ud_space db) x)))
                    (dropWhile (ud_space db) (rev (dropWhile (ud_space db) y)))" by blast
  then show ?thesis by (simp add: str_strip_def)
qed

lemma handle_capital_sigma_rel:
  assumes p: "list_all2 R passed passed'" and c: "list_all2 R coming coming'"
    and st: "\<And>a b. R a b \<Longrightarrow> ud_cased db a = ud_cased db b \<and> ud_case_ignorable db a = ud_case_ignorable db b"
  shows "handle_capital_sigma db passed coming = handle_capital_sigma db passed' coming'"
proof -
  have h: "(xs = [] \<longleftrightarrow> ys = []) \<and> (xs \<noteq> [] \<longrightarrow> ud_cased db (hd xs) = ud_cased db (hd ys))"
    if "list_all2 R xs ys" for xs ys
    using that st by (cases xs; cases ys) auto
  from dropWhile_rel[OF p, of "ud_case_ignorable db"] st
  have 1: "list_all2 R (dropWhile (ud_case_ignorable db) passed) (dropWhile (ud_case_ignorable db) passed')"
    by blast
  from dropWhile_rel[OF c, of "ud_case_ignorable db"] st
  have 2: "list_all2 R (dropWhile (ud_case_ignorable db) coming) (dropWhile (ud_case_ignorable db) coming')"
    by blast
  from h[OF 1] h[OF 2] show ?thesis
    unfolding handle_capital_sigma_def Let_def by metis
qed

lemma lower_from_rel:
  assumes x: "list_all2 R x y" and p: "list_all2 R passed passed'"
    and app: "\<And>s t. h (s @ t) = h s @ h t"
    and sg: "\<And>a b. R a b \<Longrightarrow> (a = 931 \<longleftrightarrow> b = 931)"
    and lo: "\<And>a b. R a b \<Longrightarrow> a \<noteq> 931 \<Longrightarrow> h (ud_lower db a) = h (ud_lower db b)"
    and st: "\<And>a b. R a b \<Longrightarrow> ud_cased db a = ud_cased db b \<and> ud_case_ignorable db a = ud_case_ignorable db b"
  shows "h (lower_from db passed x) = h (lower_from db passed' y)"
  using x p
proof (induction arbitrary: passed passed' rule: list_all2_induct)
  case Nil
  then show ?case by simp
next
  case (Cons a xs b ys)
  from Cons.hyps(1) Cons.prems have pp: "list_all2 R (a # passed) (b # passed')" by simp
  note ih = Cons.IH[OF pp]
  show ?case
  proof (cases "a = 931")
    case True
    with sg[OF Cons.hyps(1)] have b: "b = 931" by simp
    from handle_capital_sigma_rel[OF Cons.prems Cons.hyps(2) st]
    have e: "handle_capital_sigma db passed xs = handle_capital_sigma db passed' ys" by blast
    have "h (lower_from db passed (a # xs))
            = h ([handle_capital_sigma db passed xs] @ lower_from db (a # passed) xs)"
      using True by simp
    also have "\<dots> = h [handle_capital_sigma db passed' ys] @ h (lower_from db (b # passed') ys)"
      by (simp only: app e ih)
    also have "\<dots> = h ([handle_capital_sigma db passed' ys] @ lower_from db (b # passed') ys)"
      by (simp only: app)
    also have "\<dots> = h (lower_from db passed' (b # ys))"
      using b by simp
    finally show ?thesis .
  next
    case False
    with sg[OF Cons.hyps(1)] have b: "b \<noteq> 931" by simp
    have "h (lower_from db passed (a # xs)) = h (ud_lower db a @ lower_from db (a # passed) xs)"
      using False by simp
    also have "\<dots> = h (ud_lower db b) @ h (lower_from db (b # passed') ys)"
      by (simp only: app lo[OF Cons.hyps(1) False] ih)
    also have "\<dots> = h (ud_lower db b @ lower_from db (b # passed') ys)"
      by (simp only: app)
    also have "\<dots> = h (lower_from db passed' (b # ys))"
      using b by simp
    finally show ?thesis .
  qed
qed

lemma drop_canonical_order:
  "drop_combining db (canonical_order db run s) = drop_combining db (run @ s)"
proof (induction s arbitrary: run)
  case Nil
  show ?case by (simp add: drop_combining_def sort_key_stable)
next
  case (Cons c cs)
  show ?case
    using Cons[of "[]"] Cons[of "run @ [c]"]
    by (simp add: drop_combining_def sort_key_stable)
qed

lemma drop_nfkd:
  "drop_combining db (nfkd db s) = drop_combining db (concat (map (ud_decomp db) s))"
  by (simp add: nfkd_def drop_canonical_order)

lemma base_append:
  "drop_combining db (concat (map (ud_decomp db) (s @ t)))
     = drop_combining db (concat (map (ud_decomp db) s)) @ drop_combining db (concat (map (ud_decomp db) t))"
  by (simp add: drop_combining_def)

lemma lower_same_case:
  assumes "list_all2 (same_letter_case db) x y"
  shows "str_lower db (str_strip db x) = str_lower db (str_strip db y)"
proof -
  have s: "list_all2 (same_letter_case db) (str_strip db x) (str_strip db y)"
    by (rule str_strip_rel[OF assms]) (auto simp: same_letter_case_def)
  show ?thesis
    unfolding str_lower_def
    by (rule lower_from_rel[where h="\<lambda>s. s" and R="same_letter_case db", OF s])
       (auto simp: same_letter_case_def)
qed

lemma base_same_letters:
  assumes "list_all2 (same_base_letter db) x y"
  shows "drop_combining db (nfkd db (str_lower db (str_strip db x)))
           = drop_combining db (nfkd db (str_lower db (str_strip db y)))"
proof -
  have s: "list_all2 (same_base_letter db) (str_strip db x) (str_strip db y)"
    by (rule str_strip_rel[OF assms]) (auto simp: same_base_letter_def)
  show ?thesis
    unfolding str_lower_def drop_nfkd
  proof (rule lower_from_rel[where h="\<lambda>s. drop_combining db (concat (map (ud_decomp db) s))"
              and R="same_base_letter db", OF s])
    show "list_all2 (same_base_letter db) [] []" by simp
    show "drop_combining db (concat (map (ud_decomp db) (s @ t)))
            = drop_combining db (concat (map (ud_decomp db) s)) @ drop_combining db (concat (map (ud_decomp db) t))"
      for s t by (rule base_append)
  qed (auto simp: same_base_letter_def base_letters_def)
qed

lemma same_case_base: "same_letter_case db a b \<Longrightarrow> same_base_letter db a b"
  by (auto simp: same_letter_case_def same_base_letter_def base_letters_def)

lemma normalize_same_base:
  assumes "list_all2 (same_base_letter db) x y"
  shows "normalize_text_flow db (Some x) = normalize_text_flow db (Some y)"
    and "normalize_text_volume db (Some x) = normalize_text_volume db (Some y)"
  using base_same_letters[OF assms]
  by (simp_all add: normalize_text_flow_def normalize_text_volume_def Let_def)

lemma normalize_same_case:
  assumes "list_all2 (same_letter_case db) x y"
  shows "normalize_text_flow db (Some x) = normalize_text_flow db (Some y)"
    and "normalize_text_volume db (Some x) = normalize_text_volume db (Some y)"
    and "normalize_text_obs db (Some x) = normalize_text_obs db (Some y)"
proof -
  from assms have "list_all2 (same_base_letter db) x y"
    by (rule list_all2_mono) (rule same_case_base)
  from normalize_same_base[OF this]
  show "normalize_text_flow db (Some x) = normalize_text_flow db (Some y)"
    and "normalize_text_volume db (Some x) = normalize_text_volume db (Some y)" .
  from lower_same_case[OF assms]
  show "normalize_text_obs db (Some x) = normalize_text_obs db (Some y)"
    by (simp add: normalize_text_obs_def)
qed

lemma ex_labels_related:
  "list_all2 (same_letter_case ex_db) ex_label_upper ex_label_lower"
  "list_all2 (same_base_letter ex_db) ex_label_accents ex_label_plain"
  by (simp_all add: ex_label_upper_def ex_label_lower_def ex_label_accents_def ex_label_plain_def
        same_letter_case_def same_base_letter_def base_letters_def drop_combining_def ex_db_def u_def)

lemma ex_labels_normalized:
  "normalize_text_obs ex_db (Some ex_label_upper) = u ''d'' @ [233] @ u ''bit aval''"
  "normalize_text_flow ex_db (Some ex_label_accents) = u ''ete 2024''"
  "normalize_text_volume ex_db (Some ex_label_accents) = u ''ete 2024''"
  by (simp_all add: normalize_text_flow_def normalize_text_volume_def normalize_text_obs_def
        ex_label_upper_def ex_label_accents_def norm_eval ex_db_def del: replace_from.simps)

text \<open>
  Claim C4, as amended. Each of the three normalizers (flow, volume, observed precipitation)
  is idempotent and insensitive to letter case: two texts whose code points differ pairwise at
  most in letter case normalize to the same text. The flow and the volume normalizer are also
  insensitive to diacritics: two texts whose code points have pairwise the same base letters
  normalize to the same text. Only the flow normalizer strips the unit suffix, so that the
  accented label "Debit (m3/s)" (e acute) and "debit" normalize to the same text; the volume
  normalizer keeps the text of the unit "(m3/s)", and the observed-precipitation normalizer
  only trims, lower-cases, replaces underscores and collapses white space: it keeps diacritics
  and punctuation.
\<close>

theorem C4_normalize_idempotent:
  assumes "unicode_ok db"
  shows "normalize_text_flow db (Some (normalize_text_flow db v)) = normalize_text_flow db v \<and>
         normalize_text_volume db (Some (normalize_text_volume db v)) = normalize_text_volume db v \<and>
         normalize_text_obs db (Some (normalize_text_obs db v)) = normalize_text_obs db v \<and>
         (list_all2 (same_letter_case db) x y \<longrightarrow>
            normalize_text_flow db (Some x) = normalize_text_flow db (Some y) \<and>
            normalize_text_volume db (Some x) = normalize_text_volume db (Some y) \<and>
            normalize_text_obs db (Some x) = normalize_text_obs db (Some y)) \<and>
         (list_all2 (same_base_letter db) x' y' \<longrightarrow>
            normalize_text_flow db (Some x') = normalize_text_flow db (Some y') \<and>
            normalize_text_volume db (Some x') = normalize_text_volume db (Some y')) \<and>
         normalize_text_flow db (Some ex_label_debit) = normalize_text_flow db (Some (u ''debit'')) \<and>
         normalize_text_volume db (Some ex_label_debit) = u ''debit m3 s'' \<and>
         normalize_text_obs db (Some ex_label_debit) = u ''d'' @ [233] @ u ''bit (m3/s)''"
  using normalize_flow_idem[OF assms] normalize_volume_idem[OF assms] normalize_obs_idem[OF assms]
        flow_example[OF assms] volume_example[OF assms] obs_example[OF assms]
        normalize_same_case[of db x y] normalize_same_base[of db x' y']
  by simp

text \<open>
  The claim as stated fails for the observed-precipitation normalizer (and for the volume
  normalizer): the accented label with its unit suffix and the plain word do not normalize to
  the same text.
\<close>

theorem C4_obs_diacritic_counterexample:
  "normalize_text_obs ex_db (Some ex_label_debit) \<noteq> normalize_text_obs ex_db (Some (u ''debit'')) \<and>
   normalize_text_volume ex_db (Some ex_label_debit) \<noteq> normalize_text_volume ex_db (Some (u ''debit''))"
  using obs_example[OF ex_db_ok] volume_example[OF ex_db_ok] by (simp add: u_def)

theorem C4_normalize_idempotent_witness:
  "unicode_ok ex_db \<and>
   list_all2 (same_letter_case ex_db) ex_label_upper ex_label_lower \<and>
   list_all2 (same_base_letter ex_db) ex_label_accents ex_label_plain \<and>
   normalize_text_flow ex_db (Some (normalize_text_flow ex_db (Some ex_label_debit)))
     = normalize_text_flow ex_db (Some ex_label_debit) \<and>
   normalize_text_flow ex_db (Some ex_label_debit) = u ''debit'' \<and>
   normalize_text_obs ex_db (Some ex_label_lower) = normalize_text_obs ex_db (Some ex_label_upper) \<and>
   normalize_text_obs ex_db (Some ex_label_upper) = u ''d'' @ [233] @ u ''bit aval'' \<and>
   normalize_text_flow ex_db (Some ex_label_plain) = normalize_text_flow ex_db (Some ex_label_accents) \<and>
   normalize_text_flow ex_db (Some ex_label_accents) = u ''ete 2024''"
  using C4_normalize_idempotent[OF ex_db_ok, of "Some ex_label_debit" ex_label_upper ex_label_lower
          ex_label_accents ex_label_plain]
        ex_db_ok flow_example[OF ex_db_ok] ex_labels_related ex_labels_normalized
  by simp

section \<open>Station resolver: exact lookup, then fuzzy match\<close>

lemma get_close_matches_best:
  "get_close_matches ratio word keys cutoff =
     (case best_alias ratio cutoff keys word of None \<Rightarrow> [] | Some b \<Rightarrow> [b])"
  by (simp add: get_close_matches_def best_alias_def Let_def)

lemma best_alias_None:
  "best_alias ratio cutoff keys word = None \<longleftrightarrow> (\<forall>k \<in> set keys. ratio k word < cutoff)"
  by (auto simp: best_alias_def Let_def filter_empty_conv not_le)

lemma best_alias_Some:
  assumes "best_alias ratio cutoff keys word = Some b"
  shows "b \<in> set keys" and "ratio b word \<ge> cutoff"
    and "\<forall>k \<in> set keys. ratio k word \<ge> cutoff \<longrightarrow> (ratio k word, k) \<le> (ratio b word, b)"
proof -
  let ?good = "filter (\<lambda>k. ratio k word \<ge> cutoff) keys"
  let ?S = "set (map (\<lambda>k. (ratio k word, k)) ?good)"
  from assms have ne: "?good \<noteq> []" and b: "b = snd (Max ?S)"
    by (auto simp: best_alias_def Let_def split: if_splits)
  have fin: "finite ?S" by simp
  from ne have "?S \<noteq> {}" by (auto simp: filter_empty_conv)
  with fin have "Max ?S \<in> ?S" by (rule Max_in)
  then obtain k where k: "k \<in> set ?good" "Max ?S = (ratio k word, k)" by auto
  with b have bk: "b = k" by simp
  with k show "b \<in> set keys" "ratio b word \<ge> cutoff" by auto
  show "\<forall>k \<in> set keys. ratio k word \<ge> cutoff \<longrightarrow> (ratio k word, k) \<le> (ratio b word, b)"
  proof (intro ballI impI)
    fix k' assume "k' \<in> set keys" "ratio k' word \<ge> cutoff"
    then have "(ratio k' word, k') \<in> ?S" by auto
    with fin have "(ratio k' word, k') \<le> Max ?S" by (rule Max_ge)
    with k bk show "(ratio k' word, k') \<le> (ratio b word, b)" by simp
  qed
qed

lemma best_alias_max_ratio:
  assumes "best_alias ratio cutoff keys word = Some b" "k \<in> set keys"
  shows "ratio k word \<le> ratio b word"
proof (cases "ratio k word \<ge> cutoff")
  case True
  with best_alias_Some(3)[OF assms(1)] assms(2) have "(ratio k word, k) \<le> (ratio b word, b)" by blast
  then show ?thesis by (auto simp: less_eq_prod_def)
next
  case False
  with best_alias_Some(2)[OF assms(1)] show ?thesis by simp
qed

lemma best_alias_nil [simp]: "best_alias ratio cutoff [] word = None"
  by (simp add: best_alias_def)

lemma map_of_key: "b \<in> set (map fst al) \<Longrightarrow> \<exists>v. map_of al b = Some v"
  by (induction al) auto

lemma flow_step_exact:
  assumes "map_of tbl (normalize_text_flow db (Some col)) = Some code"
  shows "flow_resolve_step db ratio tbl names st col =
     Inr (st\<lparr>rv_col_to_code := dict_set (rv_col_to_code st) col code,
             rv_exact_matches := rv_exact_matches st + 1\<rparr>)"
  using assms by (simp add: flow_resolve_step_def dict_get_def Let_def)

lemma resolve_exact:
  assumes "map_of tbl (N col) = Some code"
  shows "resolve_label N ratio c tbl col = Some (code, Exact)"
  using assms by (simp add: resolve_label_def)

lemma resolve_fuzzy:
  assumes "map_of tbl (N col) = None" "best_alias ratio c (map fst tbl) (N col) = Some b"
    "map_of tbl b = Some code"
  shows "resolve_label N ratio c tbl col = Some (code, Fuzzy)"
  using assms by (simp add: resolve_label_def)

lemma resolve_none:
  assumes "map_of tbl (N col) = None" "best_alias ratio c (map fst tbl) (N col) = None"
  shows "resolve_label N ratio c tbl col = None"
  using assms by (simp add: resolve_label_def)

lemma apply_exact:
  "apply_resolution names best st col (Some (code, Exact)) =
     st\<lparr>rv_col_to_code := dict_set (rv_col_to_code st) col code,
        rv_exact_matches := rv_exact_matches st + 1\<rparr>"
  by (simp add: apply_resolution_def)

lemma apply_fuzzy:
  "apply_resolution names (Some b) st col (Some (code, Fuzzy)) =
     st\<lparr>rv_col_to_code := dict_set (rv_col_to_code st) col code,
             rv_fuzzy_matches := rv_fuzzy_matches st + 1,
             rv_fuzzy_details := rv_fuzzy_details st @
               [(col, code, case dict_get names code of None \<Rightarrow> [] | Some n \<Rightarrow> n, b)]\<rparr>"
  by (simp add: apply_resolution_def)

lemma apply_none:
  "apply_resolution names best st col None = st\<lparr>rv_unmapped_cols := rv_unmapped_cols st @ [col]\<rparr>"
  by (simp add: apply_resolution_def)

lemma flow_step_unmapped:
  assumes "map_of tbl (normalize_text_flow db (Some col)) = None"
    "best_alias ratio (82 / 100) (map fst tbl) (normalize_text_flow db (Some col)) = None"
  shows "flow_resolve_step db ratio tbl names st col =
     Inr (st\<lparr>rv_unmapped_cols := rv_unmapped_cols st @ [col]\<rparr>)"
  using assms by (simp add: flow_resolve_step_def dict_get_def Let_def get_close_matches_best)

lemma flow_step_fuzzy:
  assumes "map_of tbl (normalize_text_flow db (Some col)) = None"
    "best_alias ratio (82 / 100) (map fst tbl) (normalize_text_flow db (Some col)) = Some b"
    "map_of tbl b = Some code"
  shows "flow_resolve_step db ratio tbl names st col =
     Inr (st\<lparr>rv_col_to_code := dict_set (rv_col_to_code st) col code,
             rv_fuzzy_matches := rv_fuzzy_matches st + 1,
             rv_fuzzy_details := rv_fuzzy_details st @
               [(col, code, case dict_get names code of None \<Rightarrow> [] | Some n \<Rightarrow> n, b)]\<rparr>)"
proof -
  from best_alias_Some(1)[OF assms(2)] have ne: "map fst tbl \<noteq> []" by auto
  have g: "get_close_matches ratio (normalize_text_flow db (Some col)) (map fst tbl) (82 / 100) = [b]"
    by (simp only: get_close_matches_best assms(2) option.case)
  have d: "dict_get tbl (normalize_text_flow db (Some col)) = None"
    by (simp only: dict_get_def assms(1))
  have i: "dict_item tbl b = Inr code"
    by (simp only: dict_item_def assms(3) option.case)
  show ?thesis
    unfolding flow_resolve_step_def Let_def d g using ne by (simp add: i)
qed

lemma flow_step_eq:
  "flow_resolve_step db ratio tbl names st col =
     Inr (apply_resolution names
            (best_alias ratio (82 / 100) (map fst tbl) (normalize_text_flow db (Some col))) st col
            (resolve_label (\<lambda>l. normalize_text_flow db (Some l)) ratio (82 / 100) tbl col))"
proof (cases "map_of tbl (normalize_text_flow db (Some col))")
  case (Some code)
  have r: "resolve_label (\<lambda>l. normalize_text_flow db (Some l)) ratio (82 / 100) tbl col = Some (code, Exact)"
    by (rule resolve_exact) (rule Some)
  show ?thesis
    by (simp only: flow_step_exact[OF Some] r apply_exact)
next
  case None
  show ?thesis
  proof (cases "best_alias ratio (82 / 100) (map fst tbl) (normalize_text_flow db (Some col))")
    case n: None
    have r: "resolve_label (\<lambda>l. normalize_text_flow db (Some l)) ratio (82 / 100) tbl col = None"
      by (rule resolve_none) (rule None, rule n)
    show ?thesis
      by (simp only: flow_step_unmapped[OF None n] r apply_none)
  next
    case (Some b)
    from best_alias_Some(1)[OF Some] have "b \<in> set (map fst tbl)" .
    then obtain code where c: "map_of tbl b = Some code"
      by (rule map_of_key[THEN exE])
    have r: "resolve_label (\<lambda>l. normalize_text_flow db (Some l)) ratio (82 / 100) tbl col = Some (code, Fuzzy)"
      by (rule resolve_fuzzy) (rule None, rule Some, rule c)
    show ?thesis
      by (simp only: flow_step_fuzzy[OF None Some c] r Some apply_fuzzy)
  qed
qed

lemma volume_step_exact:
  assumes "map_of tbl (normalize_text_volume db (Some col)) = Some code"
  shows "volume_resolve_step db ratio tbl names st col =
     Inr (st\<lparr>rv_col_to_code := dict_set (rv_col_to_code st) col code,
             rv_exact_matches := rv_exact_matches st + 1\<rparr>)"
  using assms by (simp add: volume_resolve_step_def dict_get_def Let_def)

lemma volume_step_unmapped:
  assumes "map_of tbl (normalize_text_volume db (Some col)) = None"
    "best_alias ratio (8 / 10) (map fst tbl) (normalize_text_volume db (Some col)) = None"
  shows "volume_resolve_step db ratio tbl names st col =
     Inr (st\<lparr>rv_unmapped_cols := rv_unmapped_cols st @ [col]\<rparr>)"
  using assms by (simp add: volume_resolve_step_def dict_get_def Let_def get_close_matches_best)

lemma volume_step_fuzzy:
  assumes "map_of tbl (normalize_text_volume db (Some col)) = None"
    "best_alias ratio (8 / 10) (map fst tbl) (normalize_text_volume db (Some col)) = Some b"
    "map_of tbl b = Some code"
  shows "volume_resolve_step db ratio tbl names st col =
     Inr (st\<lparr>rv_col_to_code := dict_set (rv_col_to_code st) col code,
             rv_fuzzy_matches := rv_fuzzy_matches st + 1,
             rv_fuzzy_details := rv_fuzzy_details st @
               [(col, code, case dict_get names code of None \<Rightarrow> [] | Some n \<Rightarrow> n, b)]\<rparr>)"
proof -
  from best_alias_Some(1)[OF assms(2)] have ne: "map fst tbl \<noteq> []" by auto
  have g: "get_close_matches ratio (normalize_text_volume db (Some col)) (map fst tbl) (8 / 10) = [b]"
    by (simp only: get_close_matches_best assms(2) option.case)
  have d: "dict_get tbl (normalize_text_volume db (Some col)) = None"
    by (simp only: dict_get_def assms(1))
  have i: "dict_item tbl b = Inr code"
    by (simp only: dict_item_def assms(3) option.case)
  show ?thesis
    unfolding volume_resolve_step_def Let_def d g by (simp add: i)
qed

lemma volume_step_eq:
  "volume_resolve_step db ratio tbl names st col =
     Inr (apply_resolution names
            (best_alias ratio (8 / 10) (map fst tbl) (normalize_text_volume db (Some col))) st col
            (resolve_label (\<lambda>l. normalize_text_volume db (Some l)) ratio (8 / 10) tbl col))"
proof (cases "map_of tbl (normalize_text_volume db (Some col))")
  case (Some code)
  have r: "resolve_label (\<lambda>l. normalize_text_volume db (Some l)) ratio (8 / 10) tbl col = Some (code, Exact)"
    by (rule resolve_exact) (rule Some)
  show ?thesis
    by (simp only: volume_step_exact[OF Some] r apply_exact)
next
  case None
  show ?thesis
  proof (cases "best_alias ratio (8 / 10) (map fst tbl) (normalize_text_volume db (Some col))")
    case n: None
    have r: "resolve_label (\<lambda>l. normalize_text_volume db (Some l)) ratio (8 / 10) tbl col = None"
      by (rule resolve_none) (rule None, rule n)
    show ?thesis
      by (simp only: volume_step_unmapped[OF None n] r apply_none)
  next
    case (Some b)
    from best_alias_Some(1)[OF Some] have "b \<in> set (map fst tbl)" .
    then obtain code where c: "map_of tbl b = Some code"
      by (rule map_of_key[THEN exE])
    have r: "resolve_label (\<lambda>l. normalize_text_volume db (Some l)) ratio (8 / 10) tbl col = Some (code, Fuzzy)"
      by (rule resolve_fuzzy) (rule None, rule Some, rule c)
    show ?thesis
      by (simp only: volume_step_fuzzy[OF None Some c] r Some apply_fuzzy)
  qed
qed


lemma map_of_dict_set: "map_of (dict_set d k v) = (map_of d)(k \<mapsto> v)"
  by (simp add: dict_set_def update_conv')

lemma resolve_loop_state:
  assumes step: "\<And>st col. step st col = Inr (apply_resolution names (best col) st col (res col))"
  shows "\<exists>st'. resolve_loop step st cols = Inr st' \<and>
           (\<forall>k. map_of (rv_col_to_code st') k =
                  (if k \<in> set cols \<and> res k \<noteq> None then map_option fst (res k)
                   else map_of (rv_col_to_code st) k)) \<and>
           rv_unmapped_cols st' = rv_unmapped_cols st @ filter (\<lambda>c. res c = None) cols \<and>
           rv_exact_matches st' = rv_exact_matches st + length (filter (\<lambda>c. \<exists>code. res c = Some (code, Exact)) cols) \<and>
           rv_fuzzy_matches st' = rv_fuzzy_matches st + length (filter (\<lambda>c. \<exists>code. res c = Some (code, Fuzzy)) cols)"
proof (induction cols arbitrary: st)
  case Nil
  show ?case by simp
next
  case (Cons col cols)
  let ?st1 = "apply_resolution names (best col) st col (res col)"
  from Cons.IH[of ?st1] obtain st' where
    l: "resolve_loop step ?st1 cols = Inr st'"
    and m: "\<forall>k. map_of (rv_col_to_code st') k =
                  (if k \<in> set cols \<and> res k \<noteq> None then map_option fst (res k)
                   else map_of (rv_col_to_code ?st1) k)"
    and un: "rv_unmapped_cols st' = rv_unmapped_cols ?st1 @ filter (\<lambda>c. res c = None) cols"
    and ex: "rv_exact_matches st' = rv_exact_matches ?st1 + length (filter (\<lambda>c. \<exists>code. res c = Some (code, Exact)) cols)"
    and fz: "rv_fuzzy_matches st' = rv_fuzzy_matches ?st1 + length (filter (\<lambda>c. \<exists>code. res c = Some (code, Fuzzy)) cols)"
    by blast
  have l': "resolve_loop step st (col # cols) = Inr st'"
    by (simp add: step l)
  show ?case
  proof (cases "res col")
    case None
    then have s1: "?st1 = st\<lparr>rv_unmapped_cols := rv_unmapped_cols st @ [col]\<rparr>"
      by (simp add: apply_none)
    show ?thesis
      using l' m un ex fz None unfolding s1 by auto
  next
    case (Some p)
    obtain code meth where p: "p = (code, meth)" by (cases p)
    show ?thesis
    proof (cases meth)
      case Exact
      with Some p have s1: "?st1 = st\<lparr>rv_col_to_code := dict_set (rv_col_to_code st) col code,
             rv_exact_matches := rv_exact_matches st + 1\<rparr>"
        by (simp add: apply_exact)
      show ?thesis
        using l' m un ex fz Some p Exact unfolding s1 by (auto simp: map_of_dict_set)
    next
      case Fuzzy
      with Some p have s1: "?st1 = st\<lparr>rv_col_to_code := dict_set (rv_col_to_code st) col code,
             rv_fuzzy_matches := rv_fuzzy_matches st + 1,
             rv_fuzzy_details := rv_fuzzy_details st @
               [(col, code, case dict_get names code of None \<Rightarrow> [] | Some n \<Rightarrow> n, the (best col))]\<rparr>"
        by (simp add: apply_resolution_def)
      show ?thesis
        using l' m un ex fz Some p Fuzzy unfolding s1 by (auto simp: map_of_dict_set)
    qed
  qed
qed

lemma finish_rows:
  assumes "\<forall>r \<in> set rows. dict_get (rv_col_to_code st) (sr_source_col r) = map_option fst (res (sr_source_col r))"
  shows "fst (resolver_finish cols st rows) = resolved_rows res rows"
    and "mp_rows_dropped_unmapped (fst (snd (resolver_finish cols st rows)))
           = length (filter (\<lambda>r. res (sr_source_col r) = None) rows)"
  using assms
proof (induction rows)
  case Nil
  { case 1 show ?case by (simp add: resolver_finish_def resolved_rows_def) }
  { case 2 show ?case by (simp add: resolver_finish_def) }
next
  case (Cons r rows)
  { case 1
    then have ih: "fst (resolver_finish cols st rows) = resolved_rows res rows"
      and h: "dict_get (rv_col_to_code st) (sr_source_col r) = map_option fst (res (sr_source_col r))"
      using Cons.IH(1) by auto
    show ?case
    proof (cases "res (sr_source_col r)")
      case None
      with ih h show ?thesis by (simp add: resolver_finish_def resolved_rows_def Let_def)
    next
      case (Some p)
      with ih h show ?thesis
        by (cases p) (simp add: resolver_finish_def resolved_rows_def Let_def)
    qed }
  { case 2
    then have ih: "mp_rows_dropped_unmapped (fst (snd (resolver_finish cols st rows)))
           = length (filter (\<lambda>r. res (sr_source_col r) = None) rows)"
      and h: "dict_get (rv_col_to_code st) (sr_source_col r) = map_option fst (res (sr_source_col r))"
      using Cons.IH(2) by auto
    show ?case
      using ih h by (cases "res (sr_source_col r)") (auto simp: resolver_finish_def Let_def) }
qed

lemma finish_stats:
  "mp_unmapped_station_columns (fst (snd (resolver_finish cols st rows))) = rv_unmapped_cols st"
  "mp_exact_column_matches (fst (snd (resolver_finish cols st rows))) = rv_exact_matches st"
  "mp_fuzzy_column_matches (fst (snd (resolver_finish cols st rows))) = rv_fuzzy_matches st"
  "UnmappedColumns (rv_unmapped_cols st) \<in> set (snd (snd (resolver_finish cols st rows)))
     \<longleftrightarrow> rv_unmapped_cols st \<noteq> []"
  by (auto simp: resolver_finish_def Let_def)

lemma resolver_run:
  assumes step: "\<And>st col. step st col = Inr (apply_resolution names (best col) st col (res col))"
  shows "resolver_result res rows
           (case resolve_loop step resolver_init (sort (remdups (map sr_source_col rows))) of
              Inl e \<Rightarrow> Inl e
            | Inr st \<Rightarrow> Inr (resolver_finish (sort (remdups (map sr_source_col rows))) st rows))"
proof -
  let ?cols = "sort (remdups (map sr_source_col rows))"
  from resolve_loop_state[of step names best res resolver_init ?cols, OF step]
  obtain st' where
    l: "resolve_loop step resolver_init ?cols = Inr st'"
    and m: "\<forall>k. map_of (rv_col_to_code st') k =
                  (if k \<in> set ?cols \<and> res k \<noteq> None then map_option fst (res k)
                   else map_of (rv_col_to_code resolver_init) k)"
    and un: "rv_unmapped_cols st' = rv_unmapped_cols resolver_init @ filter (\<lambda>c. res c = None) ?cols"
    and ex: "rv_exact_matches st' = rv_exact_matches resolver_init + length (filter (\<lambda>c. \<exists>code. res c = Some (code, Exact)) ?cols)"
    and fz: "rv_fuzzy_matches st' = rv_fuzzy_matches resolver_init + length (filter (\<lambda>c. \<exists>code. res c = Some (code, Fuzzy)) ?cols)"
    by blast
  have d: "\<forall>r \<in> set rows. dict_get (rv_col_to_code st') (sr_source_col r) = map_option fst (res (sr_source_col r))"
  proof
    fix r assume r: "r \<in> set rows"
    then have "sr_source_col r \<in> set ?cols" by simp
    with m have "map_of (rv_col_to_code st') (sr_source_col r) =
        (if res (sr_source_col r) \<noteq> None then map_option fst (res (sr_source_col r)) else None)"
      by (simp add: resolver_init_def)
    then show "dict_get (rv_col_to_code st') (sr_source_col r) = map_option fst (res (sr_source_col r))"
      by (cases "res (sr_source_col r)") (simp_all add: dict_get_def)
  qed
  obtain out stats ws where f: "resolver_finish ?cols st' rows = (out, stats, ws)"
    by (metis prod_cases3)
  from finish_rows[OF d, where cols="?cols"] f have
    o: "out = resolved_rows res rows"
    and dr: "mp_rows_dropped_unmapped stats = length (filter (\<lambda>r. res (sr_source_col r) = None) rows)"
    by auto
  from finish_stats[where cols="?cols" and st="st'" and rows=rows] f un ex fz have
    "mp_unmapped_station_columns stats = filter (\<lambda>c. res c = None) ?cols"
    "mp_exact_column_matches stats = length (filter (\<lambda>c. \<exists>code. res c = Some (code, Exact)) ?cols)"
    "mp_fuzzy_column_matches stats = length (filter (\<lambda>c. \<exists>code. res c = Some (code, Fuzzy)) ?cols)"
    "UnmappedColumns (mp_unmapped_station_columns stats) \<in> set ws \<longleftrightarrow> mp_unmapped_station_columns stats \<noteq> []"
    by (auto simp: resolver_init_def)
  with o dr have "resolver_result res rows (Inr (out, stats, ws))"
    unfolding resolver_result_def by blast
  then show ?thesis by (simp add: l f)
qed

lemma flow_resolver_result:
  "resolver_result (resolve_label (\<lambda>l. normalize_text_flow db (Some l)) ratio (82 / 100) tbl) rows
     (map_columns_to_codes db ratio rows tbl names)"
  unfolding map_columns_to_codes_def Let_def
  by (rule resolver_run[where best="\<lambda>col. best_alias ratio (82 / 100) (map fst tbl) (normalize_text_flow db (Some col))"])
     (rule flow_step_eq)

lemma volume_resolver_result:
  "resolver_result (resolve_label (\<lambda>l. normalize_text_volume db (Some l)) ratio (8 / 10) tbl) rows
     (map_stations_volume db ratio rows tbl names)"
  unfolding map_stations_volume_def Let_def
  by (rule resolver_run[where best="\<lambda>col. best_alias ratio (8 / 10) (map fst tbl) (normalize_text_volume db (Some col))"])
     (rule volume_step_eq)

lemma resolve_label_props:
  "map_of tbl (N l) = Some code \<longrightarrow> resolve_label N ratio c tbl l = Some (code, Exact)"
  "resolve_label N ratio c tbl l = Some (code, Fuzzy) \<longrightarrow>
     map_of tbl (N l) = None \<and>
     (\<exists>b \<in> set (map fst tbl). ratio b (N l) \<ge> c \<and>
          (\<forall>k \<in> set (map fst tbl). ratio k (N l) \<le> ratio b (N l)) \<and> map_of tbl b = Some code)"
  "map_of tbl (N l) = None \<and> (\<forall>k \<in> set (map fst tbl). ratio k (N l) < c)
     \<longrightarrow> resolve_label N ratio c tbl l = None"
  "resolve_label N ratio c tbl l = None \<longrightarrow>
     (\<forall>r \<in> set (resolved_rows (resolve_label N ratio c tbl) rows). mp_source_col r \<noteq> l)"
proof -
  show "map_of tbl (N l) = Some code \<longrightarrow> resolve_label N ratio c tbl l = Some (code, Exact)"
    by (simp add: resolve_label_def)
  show "resolve_label N ratio c tbl l = Some (code, Fuzzy) \<longrightarrow>
     map_of tbl (N l) = None \<and>
     (\<exists>b \<in> set (map fst tbl). ratio b (N l) \<ge> c \<and>
          (\<forall>k \<in> set (map fst tbl). ratio k (N l) \<le> ratio b (N l)) \<and> map_of tbl b = Some code)"
  proof
    assume a: "resolve_label N ratio c tbl l = Some (code, Fuzzy)"
    then have n: "map_of tbl (N l) = None"
      by (auto simp: resolve_label_def split: option.splits)
    with a obtain b where b: "best_alias ratio c (map fst tbl) (N l) = Some b" "map_of tbl b = Some code"
      by (auto simp: resolve_label_def split: option.splits)
    from best_alias_Some(1,2)[OF b(1)] best_alias_max_ratio[OF b(1)] b(2) n
    show "map_of tbl (N l) = None \<and>
     (\<exists>b \<in> set (map fst tbl). ratio b (N l) \<ge> c \<and>
          (\<forall>k \<in> set (map fst tbl). ratio k (N l) \<le> ratio b (N l)) \<and> map_of tbl b = Some code)"
      by blast
  qed
  show "map_of tbl (N l) = None \<and> (\<forall>k \<in> set (map fst tbl). ratio k (N l) < c)
     \<longrightarrow> resolve_label N ratio c tbl l = None"
  proof
    assume a: "map_of tbl (N l) = None \<and> (\<forall>k \<in> set (map fst tbl). ratio k (N l) < c)"
    then have "best_alias ratio c (map fst tbl) (N l) = None"
      using best_alias_None[of ratio c "map fst tbl" "N l"] by blast
    with a show "resolve_label N ratio c tbl l = None"
      by (simp add: resolve_label_def)
  qed
  show "resolve_label N ratio c tbl l = None \<longrightarrow>
     (\<forall>r \<in> set (resolved_rows (resolve_label N ratio c tbl) rows). mp_source_col r \<noteq> l)"
    by (auto simp: resolved_rows_def split: option.splits)
qed

text \<open>
  Claim C2. For every distinct source column label the resolver normalizes the label and looks
  it up in the alias table; an exact hit gives the code and no fuzzy match is made. Only when
  the exact lookup fails is a fuzzy match made, and it assigns a code only when the
  best-scoring alias key has a ratio of at least the cutoff (0.82 in the flow workflow, 0.80
  in the volume workflow). A label with neither is unmapped, and every row that carries it is
  dropped. The loop never raises.
\<close>

theorem C2_resolver_exact_then_fuzzy:
  "resolver_result (resolve_label (\<lambda>l. normalize_text_flow db (Some l)) ratio (82 / 100) tbl) rows
     (map_columns_to_codes db ratio rows tbl names) \<and>
   resolver_result (resolve_label (\<lambda>l. normalize_text_volume db (Some l)) ratio (8 / 10) tbl) rows
     (map_stations_volume db ratio rows tbl names) \<and>
   (map_of tbl (N l) = Some code \<longrightarrow> resolve_label N ratio c tbl l = Some (code, Exact)) \<and>
   (resolve_label N ratio c tbl l = Some (code, Fuzzy) \<longrightarrow>
      map_of tbl (N l) = None \<and>
      (\<exists>b \<in> set (map fst tbl). ratio b (N l) \<ge> c \<and>
          (\<forall>k \<in> set (map fst tbl). ratio k (N l) \<le> ratio b (N l)) \<and> map_of tbl b = Some code)) \<and>
   (map_of tbl (N l) = None \<and> (\<forall>k \<in> set (map fst tbl). ratio k (N l) < c)
      \<longrightarrow> resolve_label N ratio c tbl l = None) \<and>
   (resolve_label N ratio c tbl l = None \<longrightarrow>
      (\<forall>r \<in> set (resolved_rows (resolve_label N ratio c tbl) rows). mp_source_col r \<noteq> l))"
  by (intro conjI flow_resolver_result volume_resolver_result resolve_label_props)

lemma ex_resolutions:
  "map_of ex_alias_to_code (normalize_text_flow ex_db (Some (u ''Zrarda_Debit (m3/s)''))) = Some 7"
  "resolve_label (\<lambda>l. normalize_text_flow ex_db (Some l)) ex_ratio (82 / 100) ex_alias_to_code
     (u ''Zerarda debit'') = Some (7, Fuzzy)"
  "resolve_label (\<lambda>l. normalize_text_flow ex_db (Some l)) ex_ratio (82 / 100) ex_alias_to_code
     (u ''Unknown Col'') = None"
  "map_sum id (\<lambda>(out, stats, ws). (map mp_source_col out, map mp_station_id out,
                                       mp_unmapped_station_columns stats))
     (map_columns_to_codes ex_db ex_ratio ex_source_rows ex_alias_to_code [(7, u ''Zrarda'')])
   = Inr ([u ''Zerarda debit'', u ''Zrarda_Debit (m3/s)''], [7, 7], [u ''Unknown Col''])"
  by (code_simp+)

theorem C2_resolver_exact_then_fuzzy_witness:
  "map_of ex_alias_to_code (normalize_text_flow ex_db (Some (u ''Zrarda_Debit (m3/s)''))) = Some 7 \<and>
   resolve_label (\<lambda>l. normalize_text_flow ex_db (Some l)) ex_ratio (82 / 100) ex_alias_to_code
     (u ''Zrarda_Debit (m3/s)'') = Some (7, Exact) \<and>
   resolve_label (\<lambda>l. normalize_text_flow ex_db (Some l)) ex_ratio (82 / 100) ex_alias_to_code
     (u ''Zerarda debit'') = Some (7, Fuzzy) \<and>
   map_of ex_alias_to_code (normalize_text_flow ex_db (Some (u ''Zerarda debit''))) = None \<and>
   resolve_label (\<lambda>l. normalize_text_flow ex_db (Some l)) ex_ratio (82 / 100) ex_alias_to_code
     (u ''Unknown Col'') = None \<and>
   map_sum id (\<lambda>(out, stats, ws). (map mp_source_col out, map mp_station_id out,
                                       mp_unmapped_station_columns stats))
     (map_columns_to_codes ex_db ex_ratio ex_source_rows ex_alias_to_code [(7, u ''Zrarda'')])
   = Inr ([u ''Zerarda debit'', u ''Zrarda_Debit (m3/s)''], [7, 7], [u ''Unknown Col''])"
proof -
  note a = C2_resolver_exact_then_fuzzy[where db=ex_db and ratio=ex_ratio and tbl=ex_alias_to_code
      and rows=ex_source_rows and names="[(7, u ''Zrarda'')]"
      and N="\<lambda>l. normalize_text_flow ex_db (Some l)" and c="82 / 100" and code=7]
  from a[where l="u ''Zrarda_Debit (m3/s)''"] a[where l="u ''Zerarda debit''"] a[where l="u ''Unknown Col''"]
       ex_resolutions
  show ?thesis by blast
qed

section \<open>Consolidator: the later file wins\<close>














lemma for_each_invariant:
  assumes "for_each body st xs = Inr st'" and "P st"
    and "\<And>s x s'. P s \<Longrightarrow> x \<in> set xs \<Longrightarrow> body s x = Inr s' \<Longrightarrow> P s'"
  shows "P st'"
  using assms
proof (induction xs arbitrary: st)
  case Nil
  then show ?case by simp
next
  case (Cons x xs)
  from Cons.prems(1) obtain s1 where s1: "body st x = Inr s1" and r: "for_each body s1 xs = Inr st'"
    by (auto split: sum.splits)
  from Cons.prems(3)[OF Cons.prems(2) _ s1] have p1: "P s1" by simp
  have step: "P s'" if "P s" "y \<in> set xs" "body s y = Inr s'" for s y s'
    using Cons.prems(3)[of s y s'] that by simp
  show ?case by (rule Cons.IH[OF r p1]) (rule step)
qed

lemma keys_within_set:
  assumes "keys_within codes s" "ts \<in> set (cv_all_ts s)" "code \<in> set codes"
  shows "keys_within codes (s\<lparr>cv_values := dict_set (cv_values s) (ts, code) x\<rparr>)"
  unfolding keys_within_def
proof (intro allI impI)
  fix ts' code' v
  assume a: "map_of (cv_values (s\<lparr>cv_values := dict_set (cv_values s) (ts, code) x\<rparr>)) (ts', code') = Some v"
  show "code' \<in> set codes \<and> ts' \<in> set (cv_all_ts (s\<lparr>cv_values := dict_set (cv_values s) (ts, code) x\<rparr>))"
  proof (cases "(ts', code') = (ts, code)")
    case True
    with assms show ?thesis by simp
  next
    case False
    with a have "map_of (cv_values s) (ts', code') = Some v"
      by (auto simp: dict_set_def update_conv' split: if_splits)
    with assms(1) have "code' \<in> set codes \<and> ts' \<in> set (cv_all_ts s)"
      unfolding keys_within_def by blast
    then show ?thesis by simp
  qed
qed

lemma code_step_keys:
  assumes "code_step fos ws r ts c2c s code = Inr s'"
    and "keys_within codes s \<and> ts \<in> set (cv_all_ts s)" and "code \<in> set codes"
  shows "keys_within codes s' \<and> ts \<in> set (cv_all_ts s')"
proof (cases "dict_get c2c code")
  case None
  with assms show ?thesis by (simp add: code_step_def)
next
  case (Some col)
  show ?thesis
  proof (cases "ws_cell ws r col = CNone \<or> ws_cell ws r col = CNaN")
    case True
    with Some assms show ?thesis by (simp add: code_step_def)
  next
    case False
    show ?thesis
    proof (cases "py_float fos (ws_cell ws r col)")
      case (Inl e)
      with Some False assms(1) show ?thesis by (simp add: code_step_def)
    next
      case (Inr x)
      with Some False assms(1) have s': "s' = s\<lparr>cv_values := dict_set (cv_values s) (ts, code) x\<rparr>"
        by (simp add: code_step_def)
      from keys_within_set[of codes s ts code x] assms(2,3) show ?thesis
        unfolding s' by simp
    qed
  qed
qed

lemma row_step_keys:
  assumes "row_step dt fos codes c2c ws s r = Inr s'" and "keys_within codes s"
  shows "keys_within codes s'"
proof (cases "ws_cell ws r 1 = CNone \<or> ws_cell ws r 1 = CStr []")
  case True
  with assms show ?thesis by (simp add: row_step_def)
next
  case False
  show ?thesis
  proof (cases "dt (ws_cell ws r 1)")
    case None
    with False assms show ?thesis by (simp add: row_step_def)
  next
    case (Some ts)
    let ?s1 = "s\<lparr>cv_all_ts := List.insert ts (cv_all_ts s)\<rparr>"
    from False Some assms(1) have l: "for_each (code_step fos ws r ts c2c) ?s1 codes = Inr s'"
      by (simp add: row_step_def)
    from assms(2) have p: "keys_within codes ?s1 \<and> ts \<in> set (cv_all_ts ?s1)"
      by (auto simp: keys_within_def)
    from for_each_invariant[where P="\<lambda>s. keys_within codes s \<and> ts \<in> set (cv_all_ts s)", OF l p]
         code_step_keys
    show ?thesis by blast
  qed
qed

lemma file_step_keys:
  assumes "file_step dt fos codes s wb = Inr s'" and "keys_within codes s"
  shows "keys_within codes s'"
proof (cases "dict_get wb sheet_donnees")
  case None
  with assms show ?thesis by (simp add: file_step_def)
next
  case (Some ws)
  with assms(1) obtain scanned where
    l: "for_each (row_step dt fos codes (code_to_col_of scanned) ws) s [4..<ws_max_row ws + 1] = Inr s'"
    by (auto simp: file_step_def split: sum.splits)
  from for_each_invariant[where P="keys_within codes", OF l assms(2)] row_step_keys
  show ?thesis by blast
qed

lemma files_loop_keys:
  assumes "for_each (file_step dt fos codes) s files = Inr s'" and "keys_within codes s"
  shows "keys_within codes s'"
  using for_each_invariant[where P="keys_within codes", OF assms] file_step_keys by blast

lemma file_value_code:
  assumes "file_value dt fos codes f (ts, code) = Some v"
  shows "code \<in> set codes"
proof -
  from assms obtain c where c: "file_step dt fos codes cons_init f = Inr c"
    and v: "map_of (cv_values c) (ts, code) = Some v"
    by (auto simp: file_value_def file_contrib_def dict_get_def split: sum.splits)
  have "keys_within codes cons_init" by (simp add: keys_within_def cons_init_def)
  from file_step_keys[OF c this] v show ?thesis by (auto simp: keys_within_def)
qed

lemma file_step_no_sheet:
  "dict_get wb sheet_donnees = None \<Longrightarrow> file_step dt fos codes st wb = Inr st"
  by (simp add: file_step_def)

lemma files_loop_filter:
  "for_each (file_step dt fos codes) st files
     = for_each (file_step dt fos codes) st (filter (\<lambda>wb. dict_get wb sheet_donnees \<noteq> None) files)"
proof (induction files arbitrary: st)
  case Nil
  show ?case by simp
next
  case (Cons f fs)
  show ?case
  proof (cases "dict_get f sheet_donnees")
    case None
    with Cons show ?thesis by (simp add: file_step_no_sheet)
  next
    case (Some ws)
    with Cons show ?thesis by (simp split: sum.splits)
  qed
qed

lemma consolidate_filter:
  "consolidate_outputs dt fos fmt tpl files
     = consolidate_outputs dt fos fmt tpl (filter (\<lambda>wb. dict_get wb sheet_donnees \<noteq> None) files)"
  unfolding consolidate_outputs_def Let_def
  by (simp only: files_loop_filter[symmetric])










lemma consolidate_unfold:
  assumes "consolidate_outputs dt fos fmt tpl files = Inr m"
  obtains ws scanned st where
    "dict_item tpl sheet_donnees = Inr ws" "header_scan ws = Inr scanned"
    "for_each (file_step dt fos (map fst scanned)) cons_init files = Inr st"
    "cs_codes m = map fst scanned" "cs_index m = sort (cv_all_ts st)" "cs_values m = cv_values st"
    "cs_sheet m = write_rows fmt (cv_values st) (map fst scanned) (sort (cv_all_ts st))
                    (write_header (clear_region ws 4 (length (map fst scanned) + 1)) (map fst scanned))"
proof -
  from assms obtain ws where ws: "dict_item tpl sheet_donnees = Inr ws"
    by (cases "dict_item tpl sheet_donnees") (simp_all add: consolidate_outputs_def)
  from assms ws obtain scanned where sc: "header_scan ws = Inr scanned"
    by (cases "header_scan ws") (simp_all add: consolidate_outputs_def)
  from assms ws sc obtain st where st: "for_each (file_step dt fos (map fst scanned)) cons_init files = Inr st"
    by (cases "for_each (file_step dt fos (map fst scanned)) cons_init files")
       (simp_all add: consolidate_outputs_def Let_def)
  from assms ws sc st have
    m: "m = \<lparr>cs_sheet = write_rows fmt (cv_values st) (map fst scanned) (sort (cv_all_ts st))
                    (write_header (clear_region ws 4 (length (map fst scanned) + 1)) (map fst scanned)),
               cs_codes = map fst scanned, cs_index = sort (cv_all_ts st), cs_values = cv_values st\<rparr>"
    by (simp add: consolidate_outputs_def Let_def)
  show thesis
    by (rule that[OF ws sc st]) (simp_all add: m)
qed

lemma consolidate_codes:
  assumes "consolidate_outputs dt fos fmt tpl files = Inr m"
  shows "template_codes tpl = Inr (cs_codes m)"
  using assms by (elim consolidate_unfold) (simp add: template_codes_def)




lemma consolidate_keys:
  assumes "consolidate_outputs dt fos fmt tpl files = Inr m" and "cs_lookup m ts code = Some v"
  shows "code \<in> set (cs_codes m)" and "ts \<in> set (cs_index m)"
proof -
  from assms(1) obtain ws and scanned :: "(int \<times> nat) list" and st :: cons_state where
    st: "for_each (file_step dt fos (map fst scanned)) cons_init files = Inr st"
    and c: "cs_codes m = map fst scanned" and i: "cs_index m = sort (cv_all_ts st)"
    and vv: "cs_values m = cv_values st"
    by (elim consolidate_unfold) blast
  have "keys_within (map fst scanned) cons_init" by (simp add: keys_within_def cons_init_def)
  from files_loop_keys[OF st this] assms(2)
  have "code \<in> set (map fst scanned) \<and> ts \<in> set (cv_all_ts st)"
    unfolding keys_within_def cs_lookup_def vv dict_get_def by blast
  then show "code \<in> set (cs_codes m)" and "ts \<in> set (cs_index m)"
    by (simp_all add: c i)
qed





lemma ex_consolidate_nosheet:
  "map_sum id (\<lambda>m. (cs_codes m, cs_index m, cs_lookup m 3600 1, cs_lookup m 3600 9))
     (consolidate_outputs ex_to_datetime ex_float_of_str ex_strftime ex_template [ex_output_nosheet, ex_output_a])
     = Inr ([1, 2], [3600], Some (Some 10), None)"
  "dict_get ex_output_nosheet sheet_donnees = None"
  by code_simp+



text \<open>
  Claim C10. A workbook without the data sheet leaves the state of the consolidation as it
  is, so that the result is that of the list without such workbooks; a value under a code
  that is not in the template's header row is never read, so that no workbook contributes a
  value for such a code; neither case raises or records anything. Every entry of a
  consolidation that returns has a code of the template's header row and a timestamp of the
  result.
\<close>

theorem C10_consolidation_silent_exclusions:
  "consolidate_outputs dt fos fmt tpl files
     = consolidate_outputs dt fos fmt tpl (filter (\<lambda>wb. dict_get wb sheet_donnees \<noteq> None) files) \<and>
   (dict_get wb sheet_donnees = None \<longrightarrow> file_step dt fos codes st wb = Inr st) \<and>
   (code \<notin> set codes \<longrightarrow> file_value dt fos codes wb (ts, code) = None) \<and>
   (consolidate_outputs dt fos fmt tpl files = Inr m \<longrightarrow>
      template_codes tpl = Inr (cs_codes m) \<and>
      (\<forall>ts code v. cs_lookup m ts code = Some v \<longrightarrow> code \<in> set (cs_codes m) \<and> ts \<in> set (cs_index m)))"
proof (intro conjI impI)
  show "consolidate_outputs dt fos fmt tpl files
     = consolidate_outputs dt fos fmt tpl (filter (\<lambda>wb. dict_get wb sheet_donnees \<noteq> None) files)"
    by (rule consolidate_filter)
  show "file_step dt fos codes st wb = Inr st" if "dict_get wb sheet_donnees = None"
    using that by (rule file_step_no_sheet)
  show "file_value dt fos codes wb (ts, code) = None" if "code \<notin> set codes"
    using that file_value_code[of dt fos codes wb ts code] by (cases "file_value dt fos codes wb (ts, code)") auto
  assume m: "consolidate_outputs dt fos fmt tpl files = Inr m"
  show "template_codes tpl = Inr (cs_codes m)" by (rule consolidate_codes[OF m])
  show "\<forall>ts code v. cs_lookup m ts code = Some v \<longrightarrow> code \<in> set (cs_codes m) \<and> ts \<in> set (cs_index m)"
    using consolidate_keys[OF m] by blast
qed

theorem C10_consolidation_silent_exclusions_witness:
  "dict_get ex_output_nosheet sheet_donnees = None \<and>
   consolidate_outputs ex_to_datetime ex_float_of_str ex_strftime ex_template [ex_output_nosheet, ex_output_a]
     = consolidate_outputs ex_to_datetime ex_float_of_str ex_strftime ex_template [ex_output_a] \<and>
   file_value ex_to_datetime ex_float_of_str [1, 2] ex_output_a (3600, 9) = None \<and>
   map_sum id (\<lambda>m. (cs_codes m, cs_index m, cs_lookup m 3600 1, cs_lookup m 3600 9))
     (consolidate_outputs ex_to_datetime ex_float_of_str ex_strftime ex_template [ex_output_nosheet, ex_output_a])
     = Inr ([1, 2], [3600], Some (Some 10), None)"
proof -
  have f: "filter (\<lambda>wb. dict_get wb sheet_donnees \<noteq> None) [ex_output_nosheet, ex_output_a] = [ex_output_a]"
    by (simp add: ex_output_nosheet_def ex_output_a_def dict_get_def sheet_donnees_def u_def)
  note t = C10_consolidation_silent_exclusions[where dt=ex_to_datetime and fos=ex_float_of_str
         and fmt=ex_strftime and tpl=ex_template and files="[ex_output_nosheet, ex_output_a]"
         and codes="[1, 2]" and wb=ex_output_a and code=9 and ts=3600]
  have 1: "consolidate_outputs ex_to_datetime ex_float_of_str ex_strftime ex_template [ex_output_nosheet, ex_output_a]
     = consolidate_outputs ex_to_datetime ex_float_of_str ex_strftime ex_template [ex_output_a]"
    using t[THEN conjunct1] unfolding f .
  have "(9::int) \<notin> set [1, 2]" by simp
  with t[THEN conjunct2, THEN conjunct2, THEN conjunct1]
  have 2: "file_value ex_to_datetime ex_float_of_str [1, 2] ex_output_a (3600, 9) = None"
    by (rule mp)
  from ex_consolidate_nosheet(2) 1 2 ex_consolidate_nosheet(1) show ?thesis by (intro conjI)
qed

section \<open>Format adapters: structural errors\<close>

lemma parse_html_xls_few_rows:
  "length (filter (\<lambda>r. r \<noteq> []) (scan p)) < 2 \<Longrightarrow> parse_html_xls scan p = Inl ValueError"
  by (simp add: parse_html_xls_def)

lemma parse_html_xls_frame:
  "2 \<le> length (filter (\<lambda>r. r \<noteq> []) (scan p)) \<Longrightarrow>
     parse_html_xls scan p =
       Inr \<lparr>sf_columns = hd (filter (\<lambda>r. r \<noteq> []) (scan p)),
            sf_rows = map (map Some)
                        (filter (\<lambda>r. length r = length (hd (filter (\<lambda>r. r \<noteq> []) (scan p))))
                                (tl (filter (\<lambda>r. r \<noteq> []) (scan p))))\<rparr>"
  by (simp add: parse_html_xls_def Let_def)

lemma parse_csv_cases:
  assumes "read_text p \<noteq> []"
    and "read_csv (csv_sep (takeWhile (\<lambda>c. \<not> line_boundary c) (read_text p))) p = Inr raw"
  shows "parse_csv read_text read_csv p
           = (if length (sf_columns raw) < 2 then Inl ValueError else Inr (melt raw))"
  using assms by (simp add: parse_csv_def first_line_def)

lemma length_melt: "length (melt raw) = (length (sf_columns raw) - 1) * length (sf_rows raw)"
  by (simp add: melt_def length_concat comp_def sum_list_triv)

lemmas ex_adapter_defs = parse_html_xls_def parse_html_xls_to_df_def parse_csv_def flow_read_csv_input_def
  first_line_def csv_sep_def melt_def cell_of_text_def frame_value_def line_boundary_def
  ex_scan_table_def ex_read_text_def ex_read_csv_def Let_def u_def

lemma ex_adapters:
  "parse_html_xls ex_scan_table HeaderOnlyTable = Inl ValueError"
  "parse_html_xls ex_scan_table SmallTable
     = Inr \<lparr>sf_columns = [u ''Date'', u ''A''], sf_rows = [[Some (u ''01/01/2024 00:00''), Some (u ''1,5'')]]\<rparr>"
  "parse_html_xls ex_scan_table OneColumnTable
     = Inr \<lparr>sf_columns = [u ''Date''], sf_rows = [[Some (u ''01/01/2024 00:00'')]]\<rparr>"
  "parse_html_xls_to_df ex_scan_table HeaderOnlyTable = \<lparr>sf_columns = [], sf_rows = []\<rparr>"
  "parse_csv ex_read_text ex_read_csv OneColumnCsv = Inl ValueError"
  "parse_csv ex_read_text ex_read_csv HeaderOnlyCsv = Inr []"
  "flow_read_csv_input ex_read_text ex_read_csv HeaderOnlyCsv = Inl (SystemExit 1)"
  "parse_csv ex_read_text ex_read_csv SmallCsv
     = Inr [\<lparr>sr_time = CStr (u ''01/01/2024''), sr_source_col = u ''A'', sr_value = CStr (u ''1,5'')\<rparr>]"
  by (simp_all add: ex_adapter_defs)

lemma parse_csv_empty_text: "read_text p = [] \<Longrightarrow> parse_csv read_text read_csv p = Inl IndexError"
  by (simp add: parse_csv_def first_line_def)

lemma melt_Nil_iff:
  "2 \<le> length (sf_columns raw) \<Longrightarrow> melt raw = [] \<longleftrightarrow> sf_rows raw = []"
  using length_melt[of raw] by (cases "sf_rows raw") (auto simp: length_0_conv[symmetric] simp del: length_0_conv)

text \<open>
  Claim C9, as amended. The HTML-table adapter raises ValueError when fewer than 2 non-empty
  table rows are parsed, and returns the frame of the header and of the rows of the header's
  width when the table has at least 2 rows and its header at least 2 columns. The CSV adapter
  raises ValueError when the table read has fewer than 2 columns (IndexError on an empty
  file), and otherwise returns the melted frame, whatever the number of rows: a CSV with a
  header line and no data row is not rejected by the adapter, and \<open>main\<close> then ends the run
  with exit status 1, without an exception.
\<close>

theorem C9_adapter_errors:
  "(length (filter (\<lambda>r. r \<noteq> []) (scan p)) < 2 \<longrightarrow> parse_html_xls scan p = Inl ValueError) \<and>
   (2 \<le> length (filter (\<lambda>r. r \<noteq> []) (scan p)) \<and> 2 \<le> length (hd (filter (\<lambda>r. r \<noteq> []) (scan p))) \<longrightarrow>
      parse_html_xls scan p =
        Inr \<lparr>sf_columns = hd (filter (\<lambda>r. r \<noteq> []) (scan p)),
             sf_rows = map (map Some)
                         (filter (\<lambda>r. length r = length (hd (filter (\<lambda>r. r \<noteq> []) (scan p))))
                                 (tl (filter (\<lambda>r. r \<noteq> []) (scan p))))\<rparr>) \<and>
   (read_text q = [] \<longrightarrow> parse_csv read_text read_csv q = Inl IndexError) \<and>
   (read_text q \<noteq> [] \<and>
    read_csv (csv_sep (takeWhile (\<lambda>c. \<not> line_boundary c) (read_text q))) q = Inr raw \<and>
    length (sf_columns raw) < 2 \<longrightarrow>
      parse_csv read_text read_csv q = Inl ValueError) \<and>
   (read_text q \<noteq> [] \<and>
    read_csv (csv_sep (takeWhile (\<lambda>c. \<not> line_boundary c) (read_text q))) q = Inr raw \<and>
    2 \<le> length (sf_columns raw) \<longrightarrow>
      parse_csv read_text read_csv q = Inr (melt raw) \<and>
      length (melt raw) = (length (sf_columns raw) - 1) * length (sf_rows raw) \<and>
      flow_read_csv_input read_text read_csv q
        = (if sf_rows raw = [] then Inl (SystemExit 1) else Inr (melt raw)))"
proof (intro conjI impI)
  show "parse_html_xls scan p = Inl ValueError" if "length (filter (\<lambda>r. r \<noteq> []) (scan p)) < 2"
    using that by (rule parse_html_xls_few_rows)
  show "parse_html_xls scan p =
        Inr \<lparr>sf_columns = hd (filter (\<lambda>r. r \<noteq> []) (scan p)),
             sf_rows = map (map Some)
                         (filter (\<lambda>r. length r = length (hd (filter (\<lambda>r. r \<noteq> []) (scan p))))
                                 (tl (filter (\<lambda>r. r \<noteq> []) (scan p))))\<rparr>"
    if "2 \<le> length (filter (\<lambda>r. r \<noteq> []) (scan p)) \<and> 2 \<le> length (hd (filter (\<lambda>r. r \<noteq> []) (scan p)))"
    using that parse_html_xls_frame[of scan p] by blast
  show "parse_csv read_text read_csv q = Inl IndexError" if "read_text q = []"
    using that by (rule parse_csv_empty_text)
  show "parse_csv read_text read_csv q = Inl ValueError"
    if "read_text q \<noteq> [] \<and>
        read_csv (csv_sep (takeWhile (\<lambda>c. \<not> line_boundary c) (read_text q))) q = Inr raw \<and>
        length (sf_columns raw) < 2"
    using that parse_csv_cases[of read_text q read_csv raw] by simp
next
  assume h: "read_text q \<noteq> [] \<and>
    read_csv (csv_sep (takeWhile (\<lambda>c. \<not> line_boundary c) (read_text q))) q = Inr raw \<and>
    2 \<le> length (sf_columns raw)"
  then show 1: "parse_csv read_text read_csv q = Inr (melt raw)"
    using parse_csv_cases[of read_text q read_csv raw] by simp
  show "length (melt raw) = (length (sf_columns raw) - 1) * length (sf_rows raw)"
    by (rule length_melt)
  from h melt_Nil_iff[of raw]
  show "flow_read_csv_input read_text read_csv q
        = (if sf_rows raw = [] then Inl (SystemExit 1) else Inr (melt raw))"
    by (simp add: flow_read_csv_input_def 1)
qed

text \<open>
  The claim as stated fails: the CSV adapter returns, without raising, on a file with a header
  line and no data row (the run then ends with exit status 1 in \<open>main\<close>); the HTML reader of
  the interface returns an empty frame on a table of one row; and the HTML adapter of the
  scripts returns a frame on a table of one column.
\<close>

theorem C9_adapter_no_raise_counterexample:
  "parse_csv ex_read_text ex_read_csv HeaderOnlyCsv = Inr [] \<and>
   flow_read_csv_input ex_read_text ex_read_csv HeaderOnlyCsv = Inl (SystemExit 1) \<and>
   parse_html_xls_to_df ex_scan_table HeaderOnlyTable = \<lparr>sf_columns = [], sf_rows = []\<rparr> \<and>
   parse_html_xls ex_scan_table OneColumnTable
     = Inr \<lparr>sf_columns = [u ''Date''], sf_rows = [[Some (u ''01/01/2024 00:00'')]]\<rparr>"
  using ex_adapters(3,4,6,7) by (intro conjI)

theorem C9_adapter_errors_witness:
  "parse_html_xls ex_scan_table HeaderOnlyTable = Inl ValueError \<and>
   parse_html_xls ex_scan_table SmallTable
     = Inr \<lparr>sf_columns = [u ''Date'', u ''A''],
            sf_rows = [[Some (u ''01/01/2024 00:00''), Some (u ''1,5'')]]\<rparr> \<and>
   parse_csv ex_read_text ex_read_csv OneColumnCsv = Inl ValueError \<and>
   parse_csv ex_read_text ex_read_csv SmallCsv
     = Inr [\<lparr>sr_time = CStr (u ''01/01/2024''), sr_source_col = u ''A'', sr_value = CStr (u ''1,5'')\<rparr>] \<and>
   flow_read_csv_input ex_read_text ex_read_csv HeaderOnlyCsv = Inl (SystemExit 1)"
proof -
  have h1: "length (filter (\<lambda>r. r \<noteq> []) (ex_scan_table HeaderOnlyTable)) < 2"
    by (simp add: ex_scan_table_def)
  have 1: "parse_html_xls ex_scan_table HeaderOnlyTable = Inl ValueError"
    by (rule mp[OF C9_adapter_errors[where scan=ex_scan_table and p=HeaderOnlyTable, THEN conjunct1] h1])
  have h2: "2 \<le> length (filter (\<lambda>r. r \<noteq> []) (ex_scan_table SmallTable)) \<and>
            2 \<le> length (hd (filter (\<lambda>r. r \<noteq> []) (ex_scan_table SmallTable)))"
    by (simp add: ex_scan_table_def u_def)
  from mp[OF C9_adapter_errors[where scan=ex_scan_table and p=SmallTable, THEN conjunct2, THEN conjunct1] h2]
  have 2: "parse_html_xls ex_scan_table SmallTable
     = Inr \<lparr>sf_columns = [u ''Date'', u ''A''],
            sf_rows = [[Some (u ''01/01/2024 00:00''), Some (u ''1,5'')]]\<rparr>"
    by (simp add: ex_scan_table_def u_def)
  have h3: "ex_read_text OneColumnCsv \<noteq> [] \<and>
    ex_read_csv (csv_sep (takeWhile (\<lambda>c. \<not> line_boundary c) (ex_read_text OneColumnCsv))) OneColumnCsv
      = Inr \<lparr>sf_columns = [u ''Date''], sf_rows = [[Some (u ''01/01/2024'')]]\<rparr> \<and>
    length (sf_columns \<lparr>sf_columns = [u ''Date''], sf_rows = [[Some (u ''01/01/2024'')]]\<rparr>) < 2"
    by (simp add: ex_adapter_defs)
  have 3: "parse_csv ex_read_text ex_read_csv OneColumnCsv = Inl ValueError"
    by (rule mp[OF C9_adapter_errors[where read_text=ex_read_text and read_csv=ex_read_csv and q=OneColumnCsv
          and raw="\<lparr>sf_columns = [u ''Date''], sf_rows = [[Some (u ''01/01/2024'')]]\<rparr>",
          THEN conjunct2, THEN conjunct2, THEN conjunct2, THEN conjunct1] h3])
  have h4: "ex_read_text HeaderOnlyCsv \<noteq> [] \<and>
    ex_read_csv (csv_sep (takeWhile (\<lambda>c. \<not> line_boundary c) (ex_read_text HeaderOnlyCsv))) HeaderOnlyCsv
      = Inr \<lparr>sf_columns = [u ''Date'', u ''A''], sf_rows = []\<rparr> \<and>
    2 \<le> length (sf_columns \<lparr>sf_columns = [u ''Date'', u ''A''], sf_rows = []\<rparr>)"
    by (simp add: ex_adapter_defs)
  from mp[OF C9_adapter_errors[where read_text=ex_read_text and read_csv=ex_read_csv and q=HeaderOnlyCsv
          and raw="\<lparr>sf_columns = [u ''Date'', u ''A''], sf_rows = []\<rparr>",
          THEN conjunct2, THEN conjunct2, THEN conjunct2, THEN conjunct2] h4]
  have 5: "flow_read_csv_input ex_read_text ex_read_csv HeaderOnlyCsv = Inl (SystemExit 1)"
    by simp
  from 1 2 3 ex_adapters(8) 5 show ?thesis by (intro conjI)
qed

section \<open>The end of a run: strict mode\<close>









end
